theory Spec2Isabelle
  imports Main "HOL-Library.AList"
begin

section \<open>Python string operations used by the generator\<close>

text \<open>
  The header files the generator reads are ASCII, so a Python \<open>str\<close> is modelled as a
  \<open>string\<close> (a list of characters). Every helper below is the \<open>str\<close> method of the same
  name, with the receiver as the last argument.
\<close>

definition lstrip :: "string \<Rightarrow> string \<Rightarrow> string" where
  \<comment> \<open>\<open>s.lstrip(chars)\<close>: drops leading characters that belong to the SET \<open>chars\<close>.\<close>
  "lstrip chars s = dropWhile (\<lambda>c. c \<in> set chars) s"

definition rstrip :: "string \<Rightarrow> string \<Rightarrow> string" where
  \<comment> \<open>\<open>s.rstrip(chars)\<close>: drops trailing characters that belong to the set \<open>chars\<close>.\<close>
  "rstrip chars s = rev (dropWhile (\<lambda>c. c \<in> set chars) (rev s))"

definition startswith :: "string \<Rightarrow> string \<Rightarrow> bool" where
  "startswith p s = (take (length p) s = p)"

definition endswith :: "string \<Rightarrow> string \<Rightarrow> bool" where
  "endswith p s = (length p \<le> length s \<and> drop (length s - length p) s = p)"

definition removeprefix :: "string \<Rightarrow> string \<Rightarrow> string" where
  "removeprefix p s = (if startswith p s then drop (length p) s else s)"

definition removesuffix :: "string \<Rightarrow> string \<Rightarrow> string" where
  "removesuffix p s = (if endswith p s then take (length s - length p) s else s)"

fun contains :: "string \<Rightarrow> string \<Rightarrow> bool" where
  \<comment> \<open>\<open>p in s\<close> for strings: \<open>p\<close> occurs somewhere in \<open>s\<close>.\<close>
  "contains p [] = (p = [])"
| "contains p (c # cs) = (startswith p (c # cs) \<or> contains p cs)"

fun split_from :: "string \<Rightarrow> nat \<Rightarrow> nat \<Rightarrow> string \<Rightarrow> string \<Rightarrow> string list" where
  \<comment> \<open>The scan of \<open>str.split\<close>, left to right over non-overlapping occurrences of a non-empty
      separator: \<open>m\<close> splits are still allowed, \<open>k\<close> characters of a separator just matched
      remain to be skipped, \<open>cur\<close> is the current piece, reversed.\<close>
  "split_from sep m k cur [] = [rev cur]"
| "split_from sep m (Suc k) cur (c # cs) = split_from sep m k cur cs"
| "split_from sep m 0 cur (c # cs) =
     (if 0 < m \<and> startswith sep (c # cs)
      then rev cur # split_from sep (m - 1) (length sep - 1) [] cs
      else split_from sep m 0 (c # cur) cs)"

definition split_max :: "string \<Rightarrow> nat \<Rightarrow> string \<Rightarrow> string list" where
  \<comment> \<open>\<open>s.split(sep, m)\<close>\<close>
  "split_max sep m s = split_from sep m 0 [] s"

definition split :: "string \<Rightarrow> string \<Rightarrow> string list" where
  \<comment> \<open>\<open>s.split(sep)\<close>: no limit; a string has at most \<open>length s\<close> separators.\<close>
  "split sep s = split_max sep (length s) s"

definition rsplit_max :: "string \<Rightarrow> nat \<Rightarrow> string \<Rightarrow> string list" where
  \<comment> \<open>\<open>s.rsplit(sep, m)\<close>: the same scan from the right.\<close>
  "rsplit_max sep m s = rev (map rev (split_max (rev sep) m (rev s)))"

definition rsplit :: "string \<Rightarrow> string \<Rightarrow> string list" where
  "rsplit sep s = rsplit_max sep (length s) s"

fun replace_from :: "string \<Rightarrow> string \<Rightarrow> nat \<Rightarrow> string \<Rightarrow> string" where
  \<comment> \<open>The scan of \<open>str.replace\<close> for a non-empty \<open>old\<close>; \<open>k\<close> as in \<open>split_from\<close>.\<close>
  "replace_from old new k [] = []"
| "replace_from old new (Suc k) (c # cs) = replace_from old new k cs"
| "replace_from old new 0 (c # cs) =
     (if startswith old (c # cs) then new @ replace_from old new (length old - 1) cs
      else c # replace_from old new 0 cs)"

definition replace :: "string \<Rightarrow> string \<Rightarrow> string \<Rightarrow> string" where
  "replace old new s = replace_from old new 0 s"

definition upper_chars :: string where
  "upper_chars = ''ABCDEFGHIJKLMNOPQRSTUVWXYZ''"

definition lower_chars :: string where
  "lower_chars = ''abcdefghijklmnopqrstuvwxyz''"

definition isupper :: "char \<Rightarrow> bool" where
  "isupper c = (c \<in> set upper_chars)"

definition lower :: "char \<Rightarrow> char" where
  "lower c = (case map_of (zip upper_chars lower_chars) c of Some d \<Rightarrow> d | None \<Rightarrow> c)"

definition upper :: "char \<Rightarrow> char" where
  "upper c = (case map_of (zip lower_chars upper_chars) c of Some d \<Rightarrow> d | None \<Rightarrow> c)"

definition capitalize :: "string \<Rightarrow> string" where
  "capitalize s = (case s of [] \<Rightarrow> [] | c # cs \<Rightarrow> upper c # map lower cs)"

section \<open>Type decay\<close>

definition decay_eos_type :: "string \<Rightarrow> string" where
  \<comment> \<open>\<open>_decay_eos_type\<close>\<close>
  "decay_eos_type t =
     rstrip '' '' (lstrip '' '' (rstrip ''&'' (rstrip ''*'' (rstrip ''&'' (rstrip ''*''
       (lstrip '' '' (lstrip ''const'' t)))))))"

section \<open>Count and array field pairing\<close>

definition to_snake_case :: "string \<Rightarrow> string" where
  "to_snake_case text =
     (let snake_str = concat (map (\<lambda>c. if isupper c then [CHR ''_'', lower c] else [c]) text)
      in replace ''n_a_t'' ''nat'' (replace ''p2_p_'' ''p2p_'' (replace ''k_w_s'' ''kws''
           (replace ''u_i_'' ''ui_'' (replace ''r_t_c'' ''rtc'' (replace ''b_is'' ''is''
             (replace ''u_r_i'' ''uri'' (lstrip ''_'' snake_str))))))))"

text \<open>What \<open>print\<close> receives: each argument is a string or a list of strings.\<close>

datatype pyval = Str string | StrList "string list"

type_synonym printed = "pyval list"

definition is_count_name :: "string \<Rightarrow> bool" where
  \<comment> \<open>the suffix test of \<open>_find_count_field\<close>\<close>
  "is_count_name f =
     (endswith ''Count'' f \<or> endswith ''Size'' f \<or> endswith ''Length'' f
      \<or> endswith ''LengthBytes'' f \<or> endswith ''SizeBytes'' f)"

definition token_limit :: "string list \<Rightarrow> string list \<Rightarrow> nat" where
  \<comment> \<open>\<open>min(2, len(fsplited), len(splited))\<close>\<close>
  "token_limit fsplited splited = min 2 (min (length fsplited) (length splited))"

definition similar_tokens :: "string list \<Rightarrow> string list \<Rightarrow> nat" where
  \<comment> \<open>The inner \<open>for i in range(...)\<close> loop: it counts the leading positions where the
      tokens agree after the plural suffixes are removed, and breaks at the first that
      does not.\<close>
  "similar_tokens fsplited splited =
     (let n = token_limit fsplited splited
      in length (takeWhile
           (\<lambda>(ft, t). removesuffix ''y'' (removesuffix ''s'' ft)
                        = removesuffix ''s'' (removesuffix ''ies'' t))
           (zip (take n fsplited) (take n splited))))"

fun find_count_loop :: "string list \<Rightarrow> string list \<Rightarrow> string list \<Rightarrow> string option \<times> string list" where
  \<comment> \<open>The \<open>for f in fields\<close> loop: \<open>Some f\<close> is the early \<open>return f\<close>; otherwise the list
      \<open>similars_fileds\<close> is handed on. The test \<open>f == fields\<close> of the source compares a
      string with the whole collection and is never true.\<close>
  "find_count_loop splited [] similars_fileds = (None, similars_fileds)"
| "find_count_loop splited (f # fields) similars_fileds =
     (if is_count_name f then
        (let fsplited = split ''_'' (to_snake_case f);
             similar = similar_tokens fsplited splited
         in if similar \<ge> token_limit fsplited splited then (Some f, similars_fileds)
            else if similar > 0 then find_count_loop splited fields (similars_fileds @ [f])
            else find_count_loop splited fields similars_fileds)
      else find_count_loop splited fields similars_fileds)"

definition find_count_field :: "string \<Rightarrow> string list \<Rightarrow> string option \<times> printed list" where
  \<comment> \<open>\<open>_find_count_field\<close>: the value returned (\<open>None\<close> when the function falls off its
      end) and what it printed.\<close>
  "find_count_field field fields =
     (let splited = split ''_'' (to_snake_case field)
      in case find_count_loop splited fields [] of
           (Some f, _) \<Rightarrow> (Some f, [])
         | (None, similars_fileds) \<Rightarrow>
             if length similars_fileds = 1 then (Some (similars_fileds ! 0), [])
             else (None, [[Str ''== error:'', Str field, StrList similars_fileds],
                          [Str field, StrList fields]]))"

text \<open>
  The two outcomes of the token comparison for one candidate \<open>f\<close>, named so that
  properties of the pairing can be stated: every compared token agrees (the early
  \<open>return f\<close>), or only a proper, non-empty prefix of them does (\<open>f\<close> is appended to
  \<open>similars_fileds\<close>).
\<close>

definition exact_match :: "string \<Rightarrow> string \<Rightarrow> bool" where
  "exact_match field f =
     (let splited = split ''_'' (to_snake_case field); fsplited = split ''_'' (to_snake_case f)
      in is_count_name f \<and> similar_tokens fsplited splited \<ge> token_limit fsplited splited)"

definition partial_match :: "string \<Rightarrow> string \<Rightarrow> bool" where
  "partial_match field f =
     (let splited = split ''_'' (to_snake_case field); fsplited = split ''_'' (to_snake_case f)
      in is_count_name f \<and> \<not> similar_tokens fsplited splited \<ge> token_limit fsplited splited
         \<and> similar_tokens fsplited splited > 0)"


section \<open>The tables of the generator\<close>

text \<open>
  A Python \<open>dict\<close> keeps its keys in insertion order and holds each key once: it is an
  association list, written to by \<open>AList.update\<close> (which overwrites in place or appends,
  as \<open>d[k] = v\<close> does) and read by \<open>map_of\<close>. Reading a missing key raises
  \<open>KeyError\<close>; indexing a list out of range raises \<open>IndexError\<close>.
\<close>

type_synonym 'v dict = "(string \<times> 'v) list"

datatype py_error = KeyError | IndexError

definition getitem :: "'v dict \<Rightarrow> string \<Rightarrow> py_error + 'v" where
  \<comment> \<open>\<open>d[k]\<close>\<close>
  "getitem d k = (case map_of d k of None \<Rightarrow> Inl KeyError | Some v \<Rightarrow> Inr v)"

definition pop :: "'v dict \<Rightarrow> string \<Rightarrow> py_error + 'v dict" where
  \<comment> \<open>\<open>d.pop(k)\<close>, the dictionary that is left\<close>
  "pop d k = (case map_of d k of None \<Rightarrow> Inl KeyError | Some v \<Rightarrow> Inr (AList.delete k d))"

definition keys :: "'v dict \<Rightarrow> string list" where
  "keys d = map fst d"

definition values_of :: "'v dict \<Rightarrow> 'v list" where
  \<comment> \<open>\<open>d.values()\<close>\<close>
  "values_of d = map snd d"

fun fold_err :: "('a \<Rightarrow> 's \<Rightarrow> py_error + 's) \<Rightarrow> 'a list \<Rightarrow> 's \<Rightarrow> py_error + 's" where
  \<comment> \<open>a \<open>for\<close> loop whose body may raise: the first exception ends the loop\<close>
  "fold_err body [] s = Inr s"
| "fold_err body (x # xs) s = (case body x s of Inl e \<Rightarrow> Inl e | Inr s' \<Rightarrow> fold_err body xs s')"

text \<open>
  An argument is the dictionary \<open>{"type": ..., "name": ...}\<close>; a method or callback is
  \<open>{"return": ..., "args": [...]}\<close>; a handle is
  \<open>{"methods": ..., "callbacks": ..., "enums": ...}\<close>.
\<close>

record arg =
  arg_type :: string
  arg_name :: string

record method_info =
  return :: string
  args :: "arg list"

record handle_info =
  methods :: "method_info dict"
  callbacks :: "method_info dict"
  enums :: "string list dict"

text \<open>
  The four entries \<open>"set_from"\<close>, \<open>"from"\<close>, \<open>"set_to"\<close>, \<open>"to"\<close> of a struct's
  requirements.
\<close>

record requirements =
  set_from :: bool
  from_eos :: bool
  set_to :: bool
  to_eos :: bool

text \<open>
  The module-level tables and the two generate options. Every function of the source
  that reads or writes them takes this record and, when it writes, returns it updated.
\<close>

record globals =
  structs :: "(string \<times> string) list dict"
  handles :: "handle_info dict"
  interfaces :: "method_info dict"
  release_methods :: "method_info dict"
  unhandled_methods :: "method_info dict"
  unhandled_callbacks :: "method_info dict"
  unhandled_enums :: "string list dict"
  struct2additional_method_requirements :: "requirements dict"
  expended_as_args_structs :: "string list"
  api_latest_macros :: "string list"
  max_options_fields_count_to_expend :: int
  max_callback_fields_count_to_expend :: int

definition initial_globals :: globals where
  \<comment> \<open>The module as it is loaded. The source writes the arguments of
      \<open>EOS_Platform_Create\<close> as one dictionary, not as a list of them; nothing reads it.\<close>
  "initial_globals = \<lparr>
     structs = [], handles = [],
     interfaces = [(''Platform'', \<lparr>return = ''EOS_HPlatform'',
        args = [\<lparr>arg_type = ''const EOS_Platform_Options*'', arg_name = ''Options''\<rparr>]\<rparr>)],
     release_methods = [], unhandled_methods = [], unhandled_callbacks = [],
     unhandled_enums = [], struct2additional_method_requirements = [],
     expended_as_args_structs = [], api_latest_macros = [],
     max_options_fields_count_to_expend = 3, max_callback_fields_count_to_expend = 3\<rparr>"

section \<open>Role classification\<close>

text \<open>
  The four scans return as soon as they find an occurrence. The \<open>print\<close> of a warning
  before \<open>return True\<close> in the unhandled tables has no part in the result and is left
  out.
\<close>

definition is_arg_out_struct :: "globals \<Rightarrow> string \<Rightarrow> bool" where
  \<comment> \<open>\<open>__is_arg_out_struct\<close>\<close>
  "is_arg_out_struct g struct_type =
     ((\<exists>infos \<in> set (values_of (handles g)). \<exists>method_info \<in> set (values_of (methods infos)).
         \<exists>arg \<in> set (args method_info).
           decay_eos_type (arg_type arg) = struct_type \<and> startswith ''Out'' (arg_name arg))
      \<or> (\<exists>method_info \<in> set (values_of (unhandled_methods g)). \<exists>arg \<in> set (args method_info).
           decay_eos_type (arg_type arg) = struct_type \<and> startswith ''Out'' (arg_name arg)))"

definition is_input_struct :: "globals \<Rightarrow> string \<Rightarrow> bool" where
  \<comment> \<open>\<open>__is_input_struct\<close>: release methods are not looked at\<close>
  "is_input_struct g struct_type =
     ((\<exists>infos \<in> set (values_of (handles g)). \<exists>(method_name, method_info) \<in> set (methods infos).
         \<not> endswith ''Release'' method_name \<and>
         (\<exists>arg \<in> set (args method_info).
            decay_eos_type (arg_type arg) = struct_type \<and> \<not> startswith ''Out'' (arg_name arg)))
      \<or> (\<exists>(method_name, method_info) \<in> set (unhandled_methods g).
         \<not> endswith ''Release'' method_name \<and>
         (\<exists>arg \<in> set (args method_info).
            decay_eos_type (arg_type arg) = struct_type \<and> \<not> startswith ''Out'' (arg_name arg))))"

definition is_output_struct :: "globals \<Rightarrow> string \<Rightarrow> bool" where
  \<comment> \<open>\<open>__is_output_struct\<close>: a method's return type or a callback's argument\<close>
  "is_output_struct g struct_type =
     ((\<exists>infos \<in> set (values_of (handles g)).
         (\<exists>method_info \<in> set (values_of (methods infos)).
            decay_eos_type (return method_info) = struct_type)
         \<or> (\<exists>callback_info \<in> set (values_of (callbacks infos)). \<exists>arg \<in> set (args callback_info).
            decay_eos_type (arg_type arg) = struct_type))
      \<or> (\<exists>method_info \<in> set (values_of (unhandled_methods g)).
            decay_eos_type (return method_info) = struct_type)
      \<or> (\<exists>callback_info \<in> set (values_of (unhandled_callbacks g)). \<exists>arg \<in> set (args callback_info).
            decay_eos_type (arg_type arg) = struct_type))"

definition struct_arr_map :: "string list dict" where
  "struct_arr_map = [
     (''const EOS_Stats_IngestData*'', [''Stats'']),
     (''const EOS_PresenceModification_DataRecordId*'', [''Records'']),
     (''const EOS_Presence_DataRecord*'', [''Records'']),
     (''const EOS_Leaderboards_UserScoresQueryStatInfo*'', [''StatInfo'']),
     (''const EOS_Ecom_CheckoutEntry*'', [''Entries'']),
     (''const EOS_AntiCheatCommon_RegisterEventParamDef*'', [''ParamDefs'']),
     (''const EOS_AntiCheatCommon_LogEventParamPair*'', [''Params''])]"

definition is_internal_struct_arr_field :: "string \<Rightarrow> string \<Rightarrow> bool" where
  \<comment> \<open>\<open>_is_internal_struct_arr_field(type, field)\<close>\<close>
  "is_internal_struct_arr_field type field =
     (case map_of struct_arr_map type of None \<Rightarrow> False | Some fs \<Rightarrow> field \<in> set fs)"

definition scalar_owner_field :: "string \<Rightarrow> string \<times> string \<Rightarrow> bool" where
  \<comment> \<open>the field test of \<open>__is_internal_struct\<close>, on a pair (field, field type)\<close>
  "scalar_owner_field struct_type = (\<lambda>(field, field_type).
     \<not> is_internal_struct_arr_field field_type field \<and> decay_eos_type field_type = struct_type)"

definition arr_owner_field :: "string \<Rightarrow> string \<times> string \<Rightarrow> bool" where
  \<comment> \<open>the field test of \<open>__is_internal_struct_of_arr\<close>\<close>
  "arr_owner_field struct_type = (\<lambda>(field, field_type).
     is_internal_struct_arr_field field_type field \<and> decay_eos_type field_type = struct_type)"

definition collect_owners ::
    "(string \<times> string \<Rightarrow> bool) \<Rightarrow> (string \<times> string) list dict \<Rightarrow> string list" where
  \<comment> \<open>The two nested loops shared by \<open>__is_internal_struct\<close> and
      \<open>__is_internal_struct_of_arr\<close>, from the cleared list \<open>r_owned_structs\<close>: a struct
      is appended at its first field that passes the test.\<close>
  "collect_owners test structs_table =
     fold (\<lambda>(struct_name, fields) r_owned_structs.
             fold (\<lambda>fld r. if struct_name \<notin> set r \<and> test fld then r @ [struct_name] else r)
                  fields r_owned_structs)
          structs_table []"

definition internal_struct_owners :: "globals \<Rightarrow> string \<Rightarrow> string list" where
  \<comment> \<open>what \<open>__is_internal_struct\<close> leaves in \<open>r_owned_structs\<close>\<close>
  "internal_struct_owners g struct_type = collect_owners (scalar_owner_field struct_type) (structs g)"

definition is_internal_struct :: "globals \<Rightarrow> string \<Rightarrow> bool" where
  "is_internal_struct g struct_type = (length (internal_struct_owners g struct_type) > 0)"

definition internal_struct_of_arr_owners :: "globals \<Rightarrow> string \<Rightarrow> string list" where
  \<comment> \<open>what \<open>__is_internal_struct_of_arr\<close> leaves in \<open>r_owned_structs\<close>\<close>
  "internal_struct_of_arr_owners g struct_type = collect_owners (arr_owner_field struct_type) (structs g)"

definition is_internal_struct_of_arr :: "globals \<Rightarrow> string \<Rightarrow> bool" where
  "is_internal_struct_of_arr g struct_type = (length (internal_struct_of_arr_owners g struct_type) > 0)"

definition is_method_input_only_struct :: "globals \<Rightarrow> string \<Rightarrow> bool" where
  \<comment> \<open>\<open>__is_method_input_only_struct\<close>; both operands of its first test call
      \<open>__is_internal_struct_of_arr\<close>\<close>
  "is_method_input_only_struct g struct_type =
     (if is_internal_struct_of_arr g struct_type \<or> is_internal_struct_of_arr g struct_type then False
      else if is_arg_out_struct g struct_type \<or> is_output_struct g struct_type then False
      else True)"

definition is_callback_output_only_struct :: "globals \<Rightarrow> string \<Rightarrow> bool" where
  \<comment> \<open>\<open>__is_callback_output_only_struct\<close>\<close>
  "is_callback_output_only_struct g struct_type =
     (if is_internal_struct_of_arr g struct_type \<or> is_internal_struct_of_arr g struct_type then False
      else if is_arg_out_struct g struct_type \<or> is_input_struct g struct_type then False
      else True)"

section \<open>Requirement derivation and expansion\<close>

definition own_requirements :: "globals \<Rightarrow> string \<Rightarrow> requirements" where
  \<comment> \<open>the entry the first pass writes for a struct: all false, then the three tests\<close>
  "own_requirements g struct_name =
     (let r0 = \<lparr>set_from = False, from_eos = False, set_to = False, to_eos = False\<rparr>;
          r1 = (if is_input_struct g struct_name then r0\<lparr>set_to := True, to_eos := True\<rparr> else r0);
          r2 = (if is_output_struct g struct_name then r1\<lparr>set_from := True, from_eos := True\<rparr> else r1)
      in if is_arg_out_struct g struct_name then r2\<lparr>set_from := True\<rparr> else r2)"

definition first_pass :: "globals \<Rightarrow> requirements dict \<Rightarrow> requirements dict" where
  "first_pass g reqs =
     fold (\<lambda>struct_name r. AList.update struct_name (own_requirements g struct_name) r)
          (keys (structs g)) reqs"

definition set_flags :: "string \<Rightarrow> requirements \<Rightarrow> requirements dict \<Rightarrow> py_error + requirements dict" where
  \<comment> \<open>\<open>reqs[struct_name][k] = True\<close> for every true entry \<open>k\<close> of \<open>flags\<close>; the table is
      read only when there is one\<close>
  "set_flags struct_name flags reqs =
     (if set_from flags \<or> from_eos flags \<or> set_to flags \<or> to_eos flags then
        (case getitem reqs struct_name of
           Inl e \<Rightarrow> Inl e
         | Inr r \<Rightarrow> Inr (AList.update struct_name
             (r\<lparr>set_from := set_from r \<or> set_from flags, from_eos := from_eos r \<or> from_eos flags,
                set_to := set_to r \<or> set_to flags, to_eos := to_eos r \<or> to_eos flags\<rparr>) reqs))
      else Inr reqs)"

definition inherit_from_owner :: "string \<Rightarrow> string \<Rightarrow> requirements dict \<Rightarrow> py_error + requirements dict" where
  \<comment> \<open>the body of \<open>for s in owned_structs\<close> after \<open>__is_internal_struct\<close>: every entry
      that is true for \<open>s\<close> becomes true for \<open>struct_name\<close>\<close>
  "inherit_from_owner struct_name s reqs =
     (case getitem reqs s of Inl e \<Rightarrow> Inl e | Inr rs \<Rightarrow> set_flags struct_name rs reqs)"

definition inherit_from_arr_owner ::
    "globals \<Rightarrow> string \<Rightarrow> string \<Rightarrow> requirements dict \<Rightarrow> py_error + requirements dict" where
  \<comment> \<open>the body of \<open>for s in owned_structs\<close> after \<open>__is_internal_struct_of_arr\<close>\<close>
  "inherit_from_arr_owner g struct_name s reqs =
     (case (if is_input_struct g s
            then set_flags struct_name
                   \<lparr>set_from = False, from_eos = False, set_to = True, to_eos = False\<rparr> reqs
            else Inr reqs) of
        Inl e \<Rightarrow> Inl e
      | Inr reqs' \<Rightarrow>
          if is_output_struct g s \<or> is_arg_out_struct g s
          then set_flags struct_name
                 \<lparr>set_from = True, from_eos = True, set_to = False, to_eos = False\<rparr> reqs'
          else Inr reqs')"

definition second_pass_step :: "globals \<Rightarrow> string \<Rightarrow> requirements dict \<Rightarrow> py_error + requirements dict" where
  "second_pass_step g struct_name reqs =
     (case fold_err (inherit_from_owner struct_name) (internal_struct_owners g struct_name) reqs of
        Inl e \<Rightarrow> Inl e
      | Inr reqs' \<Rightarrow>
          fold_err (inherit_from_arr_owner g struct_name)
                   (internal_struct_of_arr_owners g struct_name) reqs')"

definition second_pass :: "globals \<Rightarrow> requirements dict \<Rightarrow> py_error + requirements dict" where
  "second_pass g reqs = fold_err (second_pass_step g) (keys (structs g)) reqs"

definition expand_step :: "globals \<Rightarrow> string \<times> (string \<times> string) list \<Rightarrow> string list \<Rightarrow> string list" where
  \<comment> \<open>the body of the last loop; \<open>field_count\<close> is \<open>len(structs[struct_type])\<close>\<close>
  "expand_step g = (\<lambda>(struct_type, fields) expended.
     (let field_count = int (length fields);
          expended1 =
            (if max_options_fields_count_to_expend g > 0
                \<and> field_count \<le> max_options_fields_count_to_expend g
                \<and> is_method_input_only_struct g struct_type
             then expended @ [struct_type] else expended)
      in if max_callback_fields_count_to_expend g > 0
            \<and> field_count \<le> max_callback_fields_count_to_expend g
            \<and> is_callback_output_only_struct g struct_type
         then expended1 @ [struct_type] else expended1))"

definition make_additional_method_requirements :: "globals \<Rightarrow> py_error + globals" where
  \<comment> \<open>\<open>_make_additional_method_requirements\<close>\<close>
  "make_additional_method_requirements g =
     (case second_pass g (first_pass g (struct2additional_method_requirements g)) of
        Inl e \<Rightarrow> Inl e
      | Inr reqs \<Rightarrow>
          Inr (g\<lparr>struct2additional_method_requirements := reqs,
                 expended_as_args_structs := fold (expand_step g) (structs g) (expended_as_args_structs g)\<rparr>))"

text \<open>
  \<open>flags_le r r'\<close>: every entry that is true in \<open>r\<close> is true in \<open>r'\<close>.
\<close>

definition flags_le :: "requirements \<Rightarrow> requirements \<Rightarrow> bool" where
  "flags_le r r' =
     ((set_from r \<longrightarrow> set_from r') \<and> (from_eos r \<longrightarrow> from_eos r')
      \<and> (set_to r \<longrightarrow> set_to r') \<and> (to_eos r \<longrightarrow> to_eos r'))"

text \<open>
  What the generator reads once the derivation has run: a struct's entry
  \<open>struct2additional_method_requirements[struct_type]\<close>, and the list
  \<open>expended_as_args_structs\<close>.
\<close>

definition requirements_of :: "globals \<Rightarrow> string \<Rightarrow> py_error + requirements" where
  "requirements_of g struct_type =
     (case make_additional_method_requirements g of
        Inl e \<Rightarrow> Inl e
      | Inr g' \<Rightarrow> getitem (struct2additional_method_requirements g') struct_type)"

definition expended_after :: "globals \<Rightarrow> py_error + string list" where
  "expended_after g =
     (case make_additional_method_requirements g of
        Inl e \<Rightarrow> Inl e
      | Inr g' \<Rightarrow> Inr (expended_as_args_structs g'))"

text \<open>
  The comment on \<open>max_options_fields_count_to_expend\<close> calls it the greatest number of
  fields other than \<open>ApiVersion\<close>. \<open>__is_api_version_field\<close> is the source's test for
  that field; \<open>field_count_without_api_version\<close> is the count the comment speaks of
  (the loop itself takes \<open>len(structs[struct_type])\<close>, see \<open>expand_step\<close>).
\<close>

definition is_api_version_field :: "string \<Rightarrow> string \<Rightarrow> bool" where
  \<comment> \<open>\<open>__is_api_version_field(type, name)\<close>\<close>
  "is_api_version_field type name = (type = ''int32_t'' \<and> name = ''ApiVersion'')"

definition field_count_without_api_version :: "(string \<times> string) list \<Rightarrow> int" where
  "field_count_without_api_version flds =
     int (length (filter (\<lambda>(field, field_type). \<not> is_api_version_field field_type field) flds))"

text \<open>
  The state of the second pass only grows, entry by entry (\<open>reqs_le\<close>), and keeps an entry
  for every struct that holds at least what the first pass wrote (\<open>base_inv\<close>).
\<close>

definition reqs_le :: "requirements dict \<Rightarrow> requirements dict \<Rightarrow> bool" where
  "reqs_le reqs reqs' =
     (\<forall>k r. map_of reqs k = Some r \<longrightarrow> (\<exists>r'. map_of reqs' k = Some r' \<and> flags_le r r'))"

definition base_inv :: "globals \<Rightarrow> requirements dict \<Rightarrow> bool" where
  "base_inv g reqs =
     (\<forall>sn \<in> set (keys (structs g)).
        \<exists>r. map_of reqs sn = Some r \<and> flags_le (own_requirements g sn) r)"

text \<open>
  A model to evaluate on. The handle \<open>EOS_HFoo\<close> owns one method, which takes the struct
  \<open>EOS_Foo_QueryOptions\<close> as input and fills \<open>EOS_Foo_Info\<close> through an out-argument, and
  one callback, whose argument is \<open>EOS_Foo_QueryCallbackInfo\<close>; the free function
  \<open>EOS_Foo_GetInner\<close> returns \<open>EOS_Foo_Inner\<close>, which is also a scalar field of the input
  struct; \<open>EOS_Foo_Id\<close> is a scalar field of \<open>EOS_Foo_Pair\<close>, and neither occurs in a
  method or callback.
\<close>

definition example_model :: globals where
  "example_model = initial_globals\<lparr>
     structs := [
       (''EOS_Foo_QueryOptions'', [(''ApiVersion'', ''int32_t''), (''Inner'', ''EOS_Foo_Inner'')]),
       (''EOS_Foo_Inner'', [(''Value'', ''int32_t'')]),
       (''EOS_Foo_Info'', [(''ApiVersion'', ''int32_t''), (''Name'', ''const char*'')]),
       (''EOS_Foo_QueryCallbackInfo'', [(''ResultCode'', ''EOS_EResult''), (''ClientData'', ''void*'')]),
       (''EOS_Foo_Id'', [(''Value'', ''int32_t'')]),
       (''EOS_Foo_Pair'', [(''First'', ''EOS_Foo_Id''), (''Second'', ''EOS_Foo_Id'')])],
     handles := [
       (''EOS_HFoo'', \<lparr>
          methods = [(''EOS_Foo_Query'', \<lparr>return = ''void'', args = [
             \<lparr>arg_type = ''EOS_HFoo'', arg_name = ''Handle''\<rparr>,
             \<lparr>arg_type = ''const EOS_Foo_QueryOptions*'', arg_name = ''Options''\<rparr>,
             \<lparr>arg_type = ''EOS_Foo_Info*'', arg_name = ''OutInfo''\<rparr>,
             \<lparr>arg_type = ''void*'', arg_name = ''ClientData''\<rparr>,
             \<lparr>arg_type = ''const EOS_Foo_OnQueryCallback'', arg_name = ''CompletionDelegate''\<rparr>]\<rparr>)],
          callbacks = [(''EOS_Foo_OnQueryCallback'', \<lparr>return = [], args = [
             \<lparr>arg_type = ''const EOS_Foo_QueryCallbackInfo*'', arg_name = ''Data''\<rparr>]\<rparr>)],
          enums = []\<rparr>)],
     unhandled_methods := [
       (''EOS_Foo_GetInner'', \<lparr>return = ''EOS_Foo_Inner'', args = []\<rparr>)]\<rparr>"

section \<open>The declaration scanner\<close>

text \<open>
  A per-file table is the dictionary
  \<open>{"methods": ..., "callbacks": ..., "enums": ..., "structs": ..., "handles": ...}\<close>: the
  three tables a handle has, and the file's structs and handles. The scanner writes
  into the entry of \<open>r_file_lower2infos\<close> for its file, appends to the module-level list
  \<open>api_latest_macros\<close>, and prints.
\<close>

record file_infos = handle_info +
  file_structs :: "(string \<times> string) list dict"
  file_handles :: "handle_info dict"

record scan_state =
  file_lower2infos :: "file_infos dict"
  latest_macros :: "string list"
  stdout :: "printed list"

definition TAB :: string where
  "TAB = [CHR 0x09]"

definition NL :: string where
  "NL = [CHR 0x0A]"

definition getindex :: "'a list \<Rightarrow> nat \<Rightarrow> py_error + 'a" where
  \<comment> \<open>\<open>xs[n]\<close> for a list and \<open>n \<ge> 0\<close>\<close>
  "getindex xs n = (if n < length xs then Inr (xs ! n) else Inl IndexError)"

fun str_of_nat :: "nat \<Rightarrow> string" where
  \<comment> \<open>the decimal digits a formatted string shows for a non-negative \<open>int\<close>\<close>
  "str_of_nat n =
     (if n < 10 then [''0123456789'' ! n]
      else str_of_nat (n div 10) @ [''0123456789'' ! (n mod 10)])"

definition update_infos ::
    "string \<Rightarrow> (file_infos \<Rightarrow> file_infos) \<Rightarrow> scan_state \<Rightarrow> py_error + scan_state" where
  \<comment> \<open>a write into \<open>r_file_lower2infos[interface_lower]\<close>\<close>
  "update_infos interface_lower f st =
     (case getitem (file_lower2infos st) interface_lower of
        Inl e \<Rightarrow> Inl e
      | Inr infos \<Rightarrow>
          Inr (st\<lparr>file_lower2infos := AList.update interface_lower (f infos) (file_lower2infos st)\<rparr>))"

definition is_skipped_line :: "string \<Rightarrow> bool" where
  \<comment> \<open>the comment and blank line test inside a struct block\<close>
  "is_skipped_line line =
     (startswith ''/'' line \<or> startswith ''*'' line \<or> startswith '' '' line \<or> length line = 0)"

definition split_error :: "string \<Rightarrow> string \<Rightarrow> string list \<Rightarrow> nat \<Rightarrow> printed list" where
  \<comment> \<open>the two \<open>print\<close> calls for a line that does not split into a type and a name\<close>
  "split_error tag fp lines i =
     [[Str (tag @ fp @ '':'' @ str_of_nat i @ NL)], [Str (lines ! i)]]"

function union_loop ::
    "string \<Rightarrow> string list \<Rightarrow> nat \<Rightarrow> string dict \<Rightarrow> printed list
     \<Rightarrow> py_error + (nat \<times> string dict \<times> printed list)" where
  \<comment> \<open>The \<open>while\<close> loop over the arms of a union, from line \<open>i\<close>: it ends at the line that
      starts with \<open>}\<close> and returns its index. Reading \<open>lines[i]\<close> past the end raises.\<close>
  "union_loop fp lines i union_fileds out =
     (if i \<ge> length lines then Inl IndexError
      else if startswith ''}'' (lstrip TAB (lines ! i)) then Inr (i, union_fileds, out)
      else
        (let line = rstrip NL (lstrip TAB (lines ! i)) in
         if is_skipped_line line then union_loop fp lines (i + 1) union_fileds out
         else
           (let line = hd (rsplit '';'' line); splited = rsplit_max '' '' 1 line in
            if length splited \<noteq> 2
            then union_loop fp lines (i + 1) union_fileds (out @ split_error ''-ERROR: '' fp lines i)
            else union_loop fp lines (i + 1)
                   (AList.update (splited ! 1) (splited ! 0) union_fileds) out)))"
  by pat_completeness auto
termination
  by (relation "measure (\<lambda>(fp, lines, i, union_fileds, out). length lines - i)") auto

declare union_loop.simps [simp del]

lemma union_loop_index:
  "union_loop fp lines i union_fileds out = Inr (j, r) \<Longrightarrow> i \<le> j \<and> j < length lines"
proof (induction fp lines i union_fileds out rule: union_loop.induct)
  case (1 fp lines i union_fileds out)
  show ?case
  proof (cases "i \<ge> length lines \<or> startswith ''}'' (lstrip TAB (lines ! i))")
    case True
    with "1.prems" show ?thesis
      by (subst (asm) union_loop.simps) (auto split: if_splits)
  next
    case False
    then have a: "\<not> length lines \<le> i" "\<not> startswith ''}'' (lstrip TAB (lines ! i))" by auto
    from "1.prems" have "\<exists>u o'. union_loop fp lines (i + 1) u o' = Inr (j, r)"
      by (subst (asm) union_loop.simps) (auto simp: a Let_def split: if_splits)
    then obtain u o' where n: "union_loop fp lines (i + 1) u o' = Inr (j, r)" by blast
    have "i + 1 \<le> j \<and> j < length lines"
    proof (cases "is_skipped_line (rstrip NL (lstrip TAB (lines ! i)))")
      case True
      with "1.prems" have "union_loop fp lines (i + 1) union_fileds out = Inr (j, r)"
        by (subst (asm) union_loop.simps) (simp add: a Let_def)
      from "1.IH"(1)[OF a refl True this] show ?thesis .
    next
      case s: False
      show ?thesis
      proof (cases "length (rsplit_max '' '' 1 (hd (rsplit '';'' (rstrip NL (lstrip TAB (lines ! i)))))) \<noteq> 2")
        case True
        with "1.prems" s have
          "union_loop fp lines (i + 1) union_fileds (out @ split_error ''-ERROR: '' fp lines i) = Inr (j, r)"
          by (subst (asm) union_loop.simps) (simp add: a Let_def)
        from "1.IH"(2)[OF a refl s refl refl True this] show ?thesis .
      next
        case False
        with "1.prems" s have
          "union_loop fp lines (i + 1)
             (AList.update (rsplit_max '' '' 1 (hd (rsplit '';'' (rstrip NL (lstrip TAB (lines ! i))))) ! 1)
                (rsplit_max '' '' 1 (hd (rsplit '';'' (rstrip NL (lstrip TAB (lines ! i))))) ! 0) union_fileds)
             out = Inr (j, r)"
          by (subst (asm) union_loop.simps) (simp add: a Let_def)
        from "1.IH"(3)[OF a refl s refl refl False this] show ?thesis .
      qed
    qed
    then show ?thesis by simp
  qed
qed

definition union_type_of :: "string dict \<Rightarrow> string" where
  \<comment> \<open>the text \<open>Union{type : name, ...}\<close> built from the arms\<close>
  "union_type_of union_fileds =
     (let union_type = ''Union{'' @ concat (map (\<lambda>(union_f, t). t @ '' : '' @ union_f @ '', '') union_fileds)
      in rstrip '','' (rstrip '' '' union_type) @ ''}'')"

definition union_field_name :: "string \<Rightarrow> string" where
  \<comment> \<open>the field name on the closing line \<open>} Name;\<close> of a union\<close>
  "union_field_name l = rstrip '';'' (rstrip NL (lstrip '' '' (lstrip ''}'' (lstrip TAB l))))"

function struct_loop ::
    "string \<Rightarrow> string list \<Rightarrow> nat \<Rightarrow> string dict \<Rightarrow> printed list
     \<Rightarrow> py_error + (nat \<times> string dict \<times> printed list)" where
  \<comment> \<open>The \<open>while\<close> loop over the fields of a struct, from line \<open>i\<close>: it ends at the line
      that starts with \<open>));\<close> and returns its index, the fields and the output.\<close>
  "struct_loop fp lines i flds out =
     (if i \<ge> length lines then Inl IndexError
      else if startswith ''));'' (lines ! i) then Inr (i, flds, out)
      else
        (let line = rstrip NL (lstrip TAB (lines ! i)) in
         if is_skipped_line line then struct_loop fp lines (i + 1) flds out
         else
           (let line = hd (rsplit '';'' line) in
            if startswith ''union'' line then
              (case union_loop fp lines (i + 2) [] out of
                 Inl e \<Rightarrow> Inl e
               | Inr (j, union_fileds, out') \<Rightarrow>
                   struct_loop fp lines (j + 1)
                     (AList.update (union_field_name (lines ! j)) (union_type_of union_fileds) flds) out')
            else
              (let splited = rsplit_max '' '' 1 line in
               if length splited \<noteq> 2
               then struct_loop fp lines (i + 1) flds (out @ split_error ''ERROR: '' fp lines i)
               else struct_loop fp lines (i + 1)
                      (AList.update (splited ! 1) (splited ! 0) flds) out))))"
  by pat_completeness auto
termination
  by (relation "measure (\<lambda>(fp, lines, i, flds, out). length lines - i)")
     (auto dest: union_loop_index)

declare struct_loop.simps [simp del]

lemma struct_loop_index:
  "struct_loop fp lines i flds out = Inr (j, r) \<Longrightarrow> i \<le> j \<and> j < length lines"
proof (induction fp lines i flds out rule: struct_loop.induct)
  case (1 fp lines i flds out)
  let ?line = "rstrip NL (lstrip TAB (lines ! i))"
  let ?decl = "hd (rsplit '';'' ?line)"
  let ?splited = "rsplit_max '' '' 1 ?decl"
  show ?case
  proof (cases "i \<ge> length lines \<or> startswith ''));'' (lines ! i)")
    case True
    with "1.prems" show ?thesis
      by (subst (asm) struct_loop.simps) (auto split: if_splits)
  next
    case False
    then have a: "\<not> length lines \<le> i" "\<not> startswith ''));'' (lines ! i)" by auto
    have "i + 1 \<le> j \<and> j < length lines"
    proof (cases "is_skipped_line ?line")
      case True
      with "1.prems" have "struct_loop fp lines (i + 1) flds out = Inr (j, r)"
        by (subst (asm) struct_loop.simps) (simp add: a Let_def)
      from "1.IH"(1)[OF a refl True this] show ?thesis .
    next
      case s: False
      show ?thesis
      proof (cases "startswith ''union'' ?decl")
        case True
        from "1.prems" s True obtain k union_fileds out' where
          u: "union_loop fp lines (i + 2) [] out = Inr (k, union_fileds, out')" and
          n: "struct_loop fp lines (k + 1)
                (AList.update (union_field_name (lines ! k)) (union_type_of union_fileds) flds) out'
              = Inr (j, r)"
          by (subst (asm) struct_loop.simps) (auto simp: a Let_def split: sum.splits)
        from "1.IH"(2)[OF a refl s refl True u refl refl n] union_loop_index[OF u]
        show ?thesis by simp
      next
        case nu: False
        show ?thesis
        proof (cases "length ?splited \<noteq> 2")
          case True
          with "1.prems" s nu have
            "struct_loop fp lines (i + 1) flds (out @ split_error ''ERROR: '' fp lines i) = Inr (j, r)"
            by (subst (asm) struct_loop.simps) (simp add: a Let_def)
          from "1.IH"(3)[OF a refl s refl nu refl True this] show ?thesis .
        next
          case False
          with "1.prems" s nu have
            "struct_loop fp lines (i + 1) (AList.update (?splited ! 1) (?splited ! 0) flds) out = Inr (j, r)"
            by (subst (asm) struct_loop.simps) (simp add: a Let_def)
          from "1.IH"(4)[OF a refl s refl nu refl False this] show ?thesis .
        qed
      qed
    qed
    then show ?thesis by simp
  qed
qed

function enum_loop :: "string list \<Rightarrow> nat \<Rightarrow> string list \<Rightarrow> py_error + (nat \<times> string list)" where
  \<comment> \<open>The \<open>while\<close> loop over the members of an enum, from line \<open>i\<close>: it ends at the line
      that starts with \<open>);\<close> and returns its index and the members.\<close>
  "enum_loop lines i members =
     (if i \<ge> length lines then Inl IndexError
      else if startswith '');'' (lines ! i) then Inr (i, members)
      else
        (let line = rstrip '','' (rstrip NL (lstrip TAB (lines ! i))) in
         if startswith '' '' line \<or> startswith ''/'' line then enum_loop lines (i + 1) members
         else enum_loop lines (i + 1) (members @ [hd (split '' = '' line)])))"
  by pat_completeness auto
termination
  by (relation "measure (\<lambda>(lines, i, members). length lines - i)") auto

declare enum_loop.simps [simp del]

lemma enum_loop_index:
  "enum_loop lines i members = Inr (j, r) \<Longrightarrow> i \<le> j \<and> j < length lines"
proof (induction lines i members rule: enum_loop.induct)
  case (1 lines i members)
  let ?line = "rstrip '','' (rstrip NL (lstrip TAB (lines ! i)))"
  show ?case
  proof (cases "i \<ge> length lines \<or> startswith '');'' (lines ! i)")
    case True
    with "1.prems" show ?thesis
      by (subst (asm) enum_loop.simps) (auto split: if_splits)
  next
    case False
    then have a: "\<not> length lines \<le> i" "\<not> startswith '');'' (lines ! i)" by auto
    have "i + 1 \<le> j \<and> j < length lines"
    proof (cases "startswith '' '' ?line \<or> startswith ''/'' ?line")
      case True
      with "1.prems" have "enum_loop lines (i + 1) members = Inr (j, r)"
        by (subst (asm) enum_loop.simps) (simp add: a Let_def)
      from "1.IH"(1)[OF a refl True this] show ?thesis .
    next
      case False
      with "1.prems" have "enum_loop lines (i + 1) (members @ [hd (split '' = '' ?line)]) = Inr (j, r)"
        by (subst (asm) enum_loop.simps) (simp add: a Let_def)
      from "1.IH"(2)[OF a refl False this] show ?thesis .
    qed
    then show ?thesis by simp
  qed
qed

definition arg_step :: "string \<Rightarrow> arg list \<Rightarrow> py_error + arg list" where
  \<comment> \<open>the body of \<open>for a in args\<close> of a function declaration\<close>
  "arg_step a arg_list =
     (if length a \<le> 0 then Inr arg_list
      else
        (let splited = rsplit_max '' '' 1 a in
         if hd splited = ''void'' then Inr arg_list
         else (case getindex splited 1 of
                 Inl e \<Rightarrow> Inl e
               | Inr n \<Rightarrow> Inr (arg_list @ [\<lparr>arg_type = hd splited, arg_name = n\<rparr>]))))"

definition parse_func :: "string \<Rightarrow> py_error + (string \<times> method_info) option" where
  \<comment> \<open>An \<open>EOS_DECLARE_FUNC\<close> line: the method's name and entry, or nothing for the one
      deprecated method that is skipped.\<close>
  "parse_func line =
     (case getindex (split_max '') '' 1 line) 1 of
        Inl e \<Rightarrow> Inl e
      | Inr rest \<Rightarrow>
          (let method_name = hd (split ''('' rest) in
           if method_name \<in> set [''EOS_Achievements_AddNotifyAchievementsUnlocked''] then Inr None
           else
             (case getindex (split ''('' (hd (split_max '' '' 1 line))) 1 of
                Inl e \<Rightarrow> Inl e
              | Inr r \<Rightarrow>
                  (case getindex (split_max '' '' 1 line) 1 of
                     Inl e \<Rightarrow> Inl e
                   | Inr after_space \<Rightarrow>
                       (case getindex (split_max ''('' 1 after_space) 1 of
                          Inl e \<Rightarrow> Inl e
                        | Inr inside \<Rightarrow>
                            (case fold_err arg_step
                                    (split '', '' (hd (rsplit_max '')'' 1 inside))) [] of
                               Inl e \<Rightarrow> Inl e
                             | Inr arg_list \<Rightarrow>
                                 Inr (Some (method_name,
                                       \<lparr>return = rstrip '')'' r, args = arg_list\<rparr>))))))))"

definition parse_callback :: "string \<Rightarrow> py_error + (string \<times> method_info)" where
  \<comment> \<open>An \<open>EOS_DECLARE_CALLBACK\<close> or \<open>EOS_DECLARE_CALLBACK_RETVALUE\<close> line.\<close>
  "parse_callback line =
     (let has_return = startswith ''EOS_DECLARE_CALLBACK_RETVALUE'' line in
      case getindex (split_max ''('' 1 line) 1 of
        Inl e \<Rightarrow> Inl e
      | Inr inside \<Rightarrow>
          (let cb_args = split '', '' (hd (rsplit '')'' inside)) in
           case (if has_return then getindex cb_args 1 else Inr (hd cb_args)) of
             Inl e \<Rightarrow> Inl e
           | Inr callback_name \<Rightarrow>
               (let last_arg = rsplit_max '' '' 1 (cb_args ! (length cb_args - 1)) in
                case getindex last_arg 1 of
                  Inl e \<Rightarrow> Inl e
                | Inr n \<Rightarrow>
                    Inr (callback_name,
                         \<lparr>return = (if has_return then hd cb_args else ''''),
                          args = [\<lparr>arg_type = hd last_arg, arg_name = n\<rparr>]\<rparr>))))"

definition struct_name_of :: "string \<Rightarrow> string" where
  \<comment> \<open>the name on an \<open>EOS_STRUCT\<close> line; \<open>lstrip\<close> and \<open>rstrip\<close> take character sets\<close>
  "struct_name_of line = rstrip '', ('' (rstrip NL (lstrip ''('' (lstrip ''EOS_STRUCT'' line)))"

definition parse_step ::
    "string \<Rightarrow> string \<Rightarrow> string list \<Rightarrow> nat \<Rightarrow> scan_state \<Rightarrow> py_error + (nat \<times> scan_state)" where
  \<comment> \<open>One turn of the outer \<open>while\<close> loop of \<open>_parse_file\<close>, for \<open>i < len(lines)\<close>: the next
      index and the state.\<close>
  "parse_step interface_lower fp lines i st =
     (let line = lines ! i in
      if startswith ''#define EOS_'' line \<and> contains ''_API_LATEST'' line then
        (case getindex (split_max '' '' 2 line) 1 of
           Inl e \<Rightarrow> Inl e
         | Inr macro \<Rightarrow> Inr (i + 1, st\<lparr>latest_macros := latest_macros st @ [macro]\<rparr>))
      else if contains ''typedef struct '' line \<and> contains ''Handle*'' line then
        (case getindex (split_max ''* '' 1 line) 1 of
           Inl e \<Rightarrow> Inl e
         | Inr rest \<Rightarrow>
             (case update_infos interface_lower
                     (\<lambda>infos. infos\<lparr>file_handles :=
                        AList.update (hd (split_max '';'' 1 rest))
                          \<lparr>methods = [], callbacks = [], enums = []\<rparr> (file_handles infos)\<rparr>) st of
                Inl e \<Rightarrow> Inl e
              | Inr st' \<Rightarrow> Inr (i + 1, st')))
      else if startswith ''EOS_ENUM('' line
              \<and> hd (split ''('' line) \<notin> set [''EOS_ENUM_START'', ''EOS_ENUM_END'',
                                                ''EOS_ENUM_BOOLEAN_OPERATORS''] then
        (case getindex (split ''('' line) 1 of
           Inl e \<Rightarrow> Inl e
         | Inr rest \<Rightarrow>
             (let enum_type = hd (rsplit '','' rest) in
              case update_infos interface_lower
                     (\<lambda>infos. infos\<lparr>enums := AList.update enum_type [] (enums infos)\<rparr>) st of
                Inl e \<Rightarrow> Inl e
              | Inr st1 \<Rightarrow>
                  (case enum_loop lines (i + 1) [] of
                     Inl e \<Rightarrow> Inl e
                   | Inr (j, members) \<Rightarrow>
                       (case update_infos interface_lower
                               (\<lambda>infos. infos\<lparr>enums := AList.update enum_type members (enums infos)\<rparr>)
                               st1 of
                          Inl e \<Rightarrow> Inl e
                        | Inr st2 \<Rightarrow> Inr (j + 1, st2)))))
      else if startswith ''EOS_DECLARE_FUNC'' line then
        (case parse_func line of
           Inl e \<Rightarrow> Inl e
         | Inr None \<Rightarrow> Inr (i + 1, st)
         | Inr (Some (method_name, method_info)) \<Rightarrow>
             (case update_infos interface_lower
                     (\<lambda>infos. infos\<lparr>methods := AList.update method_name method_info (methods infos)\<rparr>)
                     st of
                Inl e \<Rightarrow> Inl e
              | Inr st' \<Rightarrow> Inr (i + 1, st')))
      else if startswith ''EOS_DECLARE_CALLBACK'' line then
        (case parse_callback line of
           Inl e \<Rightarrow> Inl e
         | Inr (callback_name, callback_info) \<Rightarrow>
             (case update_infos interface_lower
                     (\<lambda>infos. infos\<lparr>callbacks :=
                        AList.update callback_name callback_info (callbacks infos)\<rparr>) st of
                Inl e \<Rightarrow> Inl e
              | Inr st' \<Rightarrow> Inr (i + 1, st')))
      else if startswith ''EOS_STRUCT'' line then
        (let struct_name = struct_name_of line in
         case update_infos interface_lower
                (\<lambda>infos. infos\<lparr>file_structs := AList.update struct_name [] (file_structs infos)\<rparr>)
                st of
           Inl e \<Rightarrow> Inl e
         | Inr st1 \<Rightarrow>
             (case struct_loop fp lines (i + 1) [] (stdout st1) of
                Inl e \<Rightarrow> Inl e
              | Inr (j, flds, out) \<Rightarrow>
                  (case update_infos interface_lower
                          (\<lambda>infos. infos\<lparr>file_structs :=
                             AList.update struct_name flds (file_structs infos)\<rparr>) st1 of
                     Inl e \<Rightarrow> Inl e
                   | Inr st2 \<Rightarrow> Inr (j + 1, st2\<lparr>stdout := out\<rparr>))))
      else Inr (i + 1, st))"

lemma parse_step_advances:
  "parse_step interface_lower fp lines i st = Inr (j, st') \<Longrightarrow> i < j"
  unfolding parse_step_def Let_def
  by (auto split: if_splits sum.splits option.splits prod.splits
           dest: enum_loop_index struct_loop_index)

function parse_loop ::
    "string \<Rightarrow> string \<Rightarrow> string list \<Rightarrow> nat \<Rightarrow> scan_state \<Rightarrow> py_error + scan_state" where
  \<comment> \<open>the outer \<open>while i < len(lines)\<close> loop\<close>
  "parse_loop interface_lower fp lines i st =
     (if i < length lines then
        (case parse_step interface_lower fp lines i st of
           Inl e \<Rightarrow> Inl e
         | Inr (j, st') \<Rightarrow> parse_loop interface_lower fp lines j st')
      else Inr st)"
  by pat_completeness auto
termination
  by (relation "measure (\<lambda>(interface_lower, fp, lines, i, st). length lines - i)")
     (auto dest: parse_step_advances)

declare parse_loop.simps [simp del]

definition parse_file :: "string \<Rightarrow> string \<Rightarrow> string list \<Rightarrow> scan_state \<Rightarrow> py_error + scan_state" where
  \<comment> \<open>\<open>_parse_file\<close>, on the lines \<open>readlines\<close> gives for the file \<open>fp\<close>\<close>
  "parse_file interface_lower fp lines st = parse_loop interface_lower fp lines 0 st"

text \<open>
  Inputs to evaluate the scanner on: the state before the file \<open>foo.h\<close> is read, a
  struct block with a declaration that has no blank in it, and an enum and a struct
  block that never reach their terminators.
\<close>

definition foo_scan_state :: scan_state where
  "foo_scan_state = \<lparr>
     file_lower2infos = [(''foo'', \<lparr>methods = [], callbacks = [], enums = [],
                                   file_structs = [], file_handles = []\<rparr>)],
     latest_macros = [], stdout = []\<rparr>"

definition unsplittable_lines :: "string list" where
  "unsplittable_lines = [
     ''EOS_STRUCT(EOS_Foo_Options, ('' @ NL,
     TAB @ ''broken;'' @ NL,
     TAB @ ''int32_t ApiVersion;'' @ NL,
     ''));'' @ NL]"

definition unterminated_enum_lines :: "string list" where
  "unterminated_enum_lines = [
     ''EOS_ENUM(EOS_EFooKind,'' @ NL,
     TAB @ ''EOS_FK_A = 0,'' @ NL,
     TAB @ ''EOS_FK_B = 1'' @ NL]"

definition unterminated_struct_lines :: "string list" where
  "unterminated_struct_lines = [
     ''EOS_STRUCT(EOS_Foo_Options, ('' @ NL,
     TAB @ ''int32_t ApiVersion;'' @ NL,
     TAB @ ''const char* Name;'' @ NL]"

section \<open>Global consolidation\<close>

text \<open>
  The part of \<open>parse_all_file\<close> that follows the scan of the files: it works on the
  table \<open>file_lower2infos\<close> and on the module-level tables.
\<close>

record consolidation =
  files :: "file_infos dict"
  tables :: globals

definition is_interface_getter :: "string \<Rightarrow> bool" where
  \<comment> \<open>\<open>"_Get" in method_name and method_name.endswith("Interface")\<close>\<close>
  "is_interface_getter method_name =
     (contains ''_Get'' method_name \<and> endswith ''Interface'' method_name)"

definition interface_token :: "string \<Rightarrow> string" where
  \<comment> \<open>the three rewrites of one piece \<open>splited[i]\<close> of an accessor's name\<close>
  "interface_token t =
     (let t1 = (if t \<in> set [''EOS'', ''Platform''] then '''' else t);
          t2 = (if startswith ''Get'' t1 then removeprefix ''Get'' t1 else t1)
      in if removesuffix ''Interface'' t2 \<noteq> '''' then removesuffix ''Interface'' t2 else t2)"

definition interface_name :: "string \<Rightarrow> string" where
  \<comment> \<open>the key under which an accessor is filed in \<open>interfaces\<close>\<close>
  "interface_name method_name = concat (map interface_token (split ''_'' method_name))"

text \<open>
  What one pass over the methods of a file reads and writes: \<open>_handles\<close> (the handles of
  the file \<open>il\<close> of the outer loop), the callbacks of the file whose methods are scanned,
  \<open>interfaces\<close>, \<open>release_methods\<close> and the list \<open>to_remove_methods\<close>.
\<close>

record pass_state =
  p_handles :: "handle_info dict"
  p_callbacks :: "method_info dict"
  p_interfaces :: "method_info dict"
  p_release_methods :: "method_info dict"
  to_remove_methods :: "string list"

definition add_handle_method ::
    "string \<Rightarrow> string \<Rightarrow> method_info \<Rightarrow> handle_info dict \<Rightarrow> handle_info dict" where
  \<comment> \<open>\<open>_handles[handle_type]["methods"][method_name] = method_info\<close>, for a key
      \<open>handle_type\<close> of \<open>_handles\<close>\<close>
  "add_handle_method handle_type method_name method_info hs =
     map (\<lambda>(h, hi). if h = handle_type
                      then (h, hi\<lparr>methods := AList.update method_name method_info (methods hi)\<rparr>)
                      else (h, hi)) hs"

definition add_handle_callback ::
    "string \<Rightarrow> string \<Rightarrow> method_info \<Rightarrow> handle_info dict \<Rightarrow> handle_info dict" where
  \<comment> \<open>\<open>_handles[handle_type]["callbacks"][callback_type] = callback_info\<close>\<close>
  "add_handle_callback handle_type callback_type callback_info hs =
     map (\<lambda>(h, hi). if h = handle_type
                      then (h, hi\<lparr>callbacks := AList.update callback_type callback_info (callbacks hi)\<rparr>)
                      else (h, hi)) hs"

definition arg_scan ::
    "string \<Rightarrow> method_info \<Rightarrow> arg \<Rightarrow> string \<times> string \<times> handle_info dict \<times> string list
     \<Rightarrow> string \<times> string \<times> handle_info dict \<times> string list" where
  \<comment> \<open>the body of \<open>for arg in methods[method_name]["args"]\<close>, on
      \<open>(handle_type, callback_type, _handles, to_remove_methods)\<close>\<close>
  "arg_scan method_name method_info a = (\<lambda>(handle_type, callback_type, hs, to_remove).
     (let arg_type' = decay_eos_type (arg_type a);
          (handle_type1, hs1, to_remove1) =
            (if arg_type' \<in> set (keys hs) \<and> method_name \<notin> set to_remove
             then (arg_type', add_handle_method arg_type' method_name method_info hs,
                   to_remove @ [method_name])
             else (handle_type, hs, to_remove))
      in (handle_type1,
          (if endswith ''Callback'' arg_type' \<or> endswith ''CallbackV2'' arg_type'
           then arg_type' else callback_type),
          hs1, to_remove1)))"

definition method_scan :: "string \<times> method_info \<Rightarrow> pass_state \<Rightarrow> py_error + pass_state" where
  \<comment> \<open>the body of \<open>for method_name in methods.keys()\<close>\<close>
  "method_scan = (\<lambda>(method_name, method_info) ps.
     if is_interface_getter method_name then
       Inr (ps\<lparr>p_interfaces := AList.update (interface_name method_name) method_info (p_interfaces ps),
               to_remove_methods := to_remove_methods ps @ [method_name]\<rparr>)
     else
       (let (handle_type, callback_type, hs, to_remove) =
              fold (arg_scan method_name method_info) (args method_info)
                   ('''', '''', p_handles ps, to_remove_methods ps)
        in if endswith ''_Release'' method_name then
             Inr (ps\<lparr>p_handles := hs,
                     p_release_methods := AList.update method_name method_info (p_release_methods ps),
                     to_remove_methods := to_remove @ [method_name]\<rparr>)
           else if length handle_type \<noteq> 0 \<and> length callback_type \<noteq> 0 then
             (case getitem (p_callbacks ps) callback_type of
                Inl e \<Rightarrow> Inl e
              | Inr callback_info \<Rightarrow>
                  Inr (ps\<lparr>p_handles := add_handle_callback handle_type callback_type callback_info hs,
                          p_callbacks := AList.delete callback_type (p_callbacks ps),
                          to_remove_methods := to_remove\<rparr>))
           else Inr (ps\<lparr>p_handles := hs, to_remove_methods := to_remove\<rparr>)))"

definition pop_all :: "string list \<Rightarrow> 'v dict \<Rightarrow> py_error + 'v dict" where
  \<comment> \<open>\<open>for m in to_remove_methods: infos["methods"].pop(m)\<close>\<close>
  "pop_all ms d = fold_err (\<lambda>m d'. pop d' m) ms d"

definition file_pass :: "string \<Rightarrow> string \<Rightarrow> consolidation \<Rightarrow> py_error + consolidation" where
  \<comment> \<open>One turn of \<open>for infos in file_lower2infos.values()\<close>, for the file \<open>jl\<close>, inside
      the turn of the outer loop for the file \<open>il\<close>. The two files may be the same one.\<close>
  "file_pass il jl c =
     (case getitem (files c) il of
        Inl e \<Rightarrow> Inl e
      | Inr il_infos \<Rightarrow>
     (case getitem (files c) jl of
        Inl e \<Rightarrow> Inl e
      | Inr infos \<Rightarrow>
     (case fold_err method_scan (methods infos)
             \<lparr>p_handles = file_handles il_infos, p_callbacks = callbacks infos,
              p_interfaces = interfaces (tables c), p_release_methods = release_methods (tables c),
              to_remove_methods = []\<rparr> of
        Inl e \<Rightarrow> Inl e
      | Inr ps \<Rightarrow>
     (case pop_all (to_remove_methods ps) (methods infos) of
        Inl e \<Rightarrow> Inl e
      | Inr methods' \<Rightarrow>
          Inr (c\<lparr>files :=
                   map (\<lambda>(k, x). if k = jl then (k, x\<lparr>methods := methods', callbacks := p_callbacks ps\<rparr>)
                                  else (k, x))
                     (map (\<lambda>(k, x). if k = il then (k, x\<lparr>file_handles := p_handles ps\<rparr>) else (k, x))
                        (files c)),
                 tables := (tables c)\<lparr>interfaces := p_interfaces ps,
                                        release_methods := p_release_methods ps\<rparr>\<rparr>)))))"

definition move_methods :: "consolidation \<Rightarrow> py_error + consolidation" where
  \<comment> \<open>the two nested loops over the files\<close>
  "move_methods c =
     fold_err (\<lambda>il c1. fold_err (file_pass il) (keys (files c1)) c1) (keys (files c)) c"

definition class_name_token :: "string \<Rightarrow> string" where
  \<comment> \<open>the rewrite of one piece of the name in \<open>_convert_interface_class_name\<close>, in the
      order of its tests\<close>
  "class_name_token t =
     (if t \<in> set [''rtc'', ''p2p'', ''ui''] then map upper t
      else if t = ''playerdatastorage'' then ''PlayerDataStorage''
      else if t = ''p2p'' then ''P2P''
      else if t = ''sdk'' then ''Platform''
      else if t = ''userinfo'' then ''UserInfo''
      else if t = ''titlestorage'' then ''TitleStorage''
      else if t = ''anticheatserver'' then ''AntiCheatServer''
      else if t = ''anticheatclient'' then ''AntiCheatClient''
      else if t = ''progressionsnapshot'' then ''ProgressionSnapshot''
      else if t = ''kws'' then ''KWS''
      else if t = ''custominvites'' then ''CustomInvites''
      else if t = ''integratedplatform'' then ''IntegratedPlatform''
      else capitalize t)"

definition convert_interface_class_name :: "string \<Rightarrow> string" where
  \<comment> \<open>\<open>_convert_interface_class_name\<close>\<close>
  "convert_interface_class_name interface_name_lower =
     ''EOS'' @ concat (map class_name_token (split ''_'' (removeprefix ''eos_'' interface_name_lower)))"

definition update_all :: "'v dict \<Rightarrow> 'v dict \<Rightarrow> 'v dict" where
  \<comment> \<open>\<open>for k in src: dst[k] = src[k]\<close>\<close>
  "update_all src dst = fold (\<lambda>(k, v) d. AList.update k v d) src dst"

definition move_handles :: "consolidation \<Rightarrow> consolidation" where
  \<comment> \<open>the loop that moves every file's handles into \<open>handles\<close>\<close>
  "move_handles c =
     c\<lparr>tables := (tables c)\<lparr>handles :=
          fold (\<lambda>(il, infos) hs. update_all (file_handles infos) hs) (files c) (handles (tables c))\<rparr>\<rparr>"

definition move_structs :: "consolidation \<Rightarrow> consolidation" where
  \<comment> \<open>the loop that moves every file's structs into \<open>structs\<close>\<close>
  "move_structs c =
     c\<lparr>tables := (tables c)\<lparr>structs :=
          fold (\<lambda>(il, infos) ss. update_all (file_structs infos) ss) (files c) (structs (tables c))\<rparr>\<rparr>"

definition move_enums_step :: "string \<times> file_infos \<Rightarrow> globals \<Rightarrow> py_error + globals" where
  \<comment> \<open>the body of the loop that files the enums of one file\<close>
  "move_enums_step = (\<lambda>(il, infos) g.
     (let interface = removeprefix ''EOS'' (convert_interface_class_name il) in
      if interface \<in> set (keys (interfaces g)) then
        (case getitem (handles g) (''EOS_H'' @ interface) of
           Inl e \<Rightarrow> Inl e
         | Inr hi \<Rightarrow>
             Inr (g\<lparr>handles := AList.update (''EOS_H'' @ interface) (hi\<lparr>enums := enums infos\<rparr>)
                                  (handles g)\<rparr>))
      else Inr (g\<lparr>unhandled_enums := update_all (enums infos) (unhandled_enums g)\<rparr>)))"

definition file_leftovers :: "string \<times> file_infos \<Rightarrow> globals \<Rightarrow> globals" where
  \<comment> \<open>the body of the loop that files what is left of one file as unhandled\<close>
  "file_leftovers = (\<lambda>(il, infos) g.
     g\<lparr>unhandled_callbacks := update_all (callbacks infos) (unhandled_callbacks g),
       unhandled_methods := update_all (methods infos) (unhandled_methods g)\<rparr>)"

definition consolidate :: "consolidation \<Rightarrow> py_error + globals" where
  \<comment> \<open>\<open>parse_all_file\<close> from the first loop over \<open>file_lower2infos\<close> on. The list
      \<open>classes\<close> it then builds is only printed.\<close>
  "consolidate c =
     (case move_methods c of
        Inl e \<Rightarrow> Inl e
      | Inr c1 \<Rightarrow>
          (let c2 = move_structs (move_handles c1) in
           case fold_err move_enums_step (files c2) (tables c2) of
             Inl e \<Rightarrow> Inl e
           | Inr g \<Rightarrow> make_additional_method_requirements (fold file_leftovers (files c2) g)))"

text \<open>
  An input to evaluate on: the file \<open>foo\<close> declares the accessor \<open>Foo_GetBarInterface()\<close>
  and nothing else.
\<close>

definition accessor_input :: consolidation where
  "accessor_input = \<lparr>
     files = [(''common'', \<lparr>methods = [], callbacks = [], enums = [],
                             file_structs = [], file_handles = []\<rparr>),
              (''foo'', \<lparr>methods = [(''Foo_GetBarInterface'', \<lparr>return = ''EOS_HBar'', args = []\<rparr>)],
                          callbacks = [], enums = [], file_structs = [], file_handles = []\<rparr>)],
     tables = initial_globals\<rparr>"

text \<open>
  \<open>methods_of_file c k\<close>: the names in the method table of the file \<open>k\<close>, none when there
  is no such file.
\<close>

definition methods_of_file :: "consolidation \<Rightarrow> string \<Rightarrow> string list" where
  "methods_of_file c k = (case map_of (files c) k of None \<Rightarrow> [] | Some x \<Rightarrow> keys (methods x))"

section \<open>Definitions: ownership of methods\<close>


text \<open>
  For the ownership of a method: the decayed types of its arguments that name a handle
  of a table, in argument order, and the method names a handle of a table holds.
\<close>

definition matching_handles :: "handle_info dict \<Rightarrow> method_info \<Rightarrow> string list" where
  "matching_handles hs method_info =
     filter (\<lambda>t. t \<in> set (keys hs)) (map (\<lambda>a. decay_eos_type (arg_type a)) (args method_info))"

definition handle_methods :: "handle_info dict \<Rightarrow> string \<Rightarrow> string list" where
  "handle_methods hs h = (case map_of hs h of None \<Rightarrow> [] | Some hi \<Rightarrow> keys (methods hi))"

text \<open>
  The same per file of the table \<open>file_lower2infos\<close>: the entry of a method in the method
  table of the file \<open>k\<close>, the method names the handle \<open>h\<close> of the file \<open>k\<close> holds, and the
  arguments of a method that name a handle of the file \<open>k\<close>.
\<close>

definition file_method :: "consolidation \<Rightarrow> string \<Rightarrow> string \<Rightarrow> method_info option" where
  "file_method c k m = (case map_of (files c) k of None \<Rightarrow> None | Some x \<Rightarrow> map_of (methods x) m)"

definition file_handle_methods :: "consolidation \<Rightarrow> string \<Rightarrow> string \<Rightarrow> string list" where
  "file_handle_methods c k h =
     (case map_of (files c) k of None \<Rightarrow> [] | Some x \<Rightarrow> handle_methods (file_handles x) h)"

definition file_handle_keys :: "consolidation \<Rightarrow> string \<Rightarrow> string list" where
  "file_handle_keys c k = (case map_of (files c) k of None \<Rightarrow> [] | Some x \<Rightarrow> keys (file_handles x))"

definition file_matching :: "consolidation \<Rightarrow> string \<Rightarrow> method_info \<Rightarrow> string list" where
  "file_matching c k method_info =
     (case map_of (files c) k of None \<Rightarrow> [] | Some x \<Rightarrow> matching_handles (file_handles x) method_info)"

definition methods_distinct :: "consolidation \<Rightarrow> bool" where
  \<comment> \<open>every method table holds each name once, as a dictionary does\<close>
  "methods_distinct c = (\<forall>(k, x) \<in> set (files c). distinct (keys (methods x)))"

text \<open>
  The two states of a method \<open>m\<close> during the move: still in the method table of its file
  \<open>jf\<close> and in no handle, or in no method table and in the handle \<open>h\<close> of the file \<open>il\<close>
  only.
\<close>

definition pending :: "consolidation \<Rightarrow> string \<Rightarrow> string \<Rightarrow> method_info \<Rightarrow> bool" where
  "pending c jf m mi =
     (file_method c jf m = Some mi \<and> (\<forall>k. k \<noteq> jf \<longrightarrow> file_method c k m = None)
      \<and> (\<forall>k h. m \<notin> set (file_handle_methods c k h)))"

definition owned_in :: "consolidation \<Rightarrow> string \<Rightarrow> string \<Rightarrow> string \<Rightarrow> bool" where
  "owned_in c il h m =
     ((\<forall>k. file_method c k m = None)
      \<and> (\<forall>k h'. m \<in> set (file_handle_methods c k h') \<longleftrightarrow> k = il \<and> h' = h))"

definition all_handle_names :: "consolidation \<Rightarrow> string list" where
  \<comment> \<open>the handle names of all files, in file order\<close>
  "all_handle_names c = concat (map (\<lambda>(k, x). keys (file_handles x)) (files c))"

text \<open>
  \<open>declared_once c jf m mi\<close>: the file \<open>jf\<close> declares the method \<open>m\<close> with the entry \<open>mi\<close>, no
  other file declares a method of that name, and no handle of a file holds it yet (the
  scanner creates every handle with empty tables).
\<close>

definition declared_once :: "consolidation \<Rightarrow> string \<Rightarrow> string \<Rightarrow> method_info \<Rightarrow> bool" where
  "declared_once c jf m mi =
     (file_method c jf m = Some mi
      \<and> (\<forall>(k, x) \<in> set (files c). k \<noteq> jf \<longrightarrow> m \<notin> set (keys (methods x)))
      \<and> (\<forall>(k, x) \<in> set (files c). \<forall>(h, hi) \<in> set (file_handles x). m \<notin> set (keys (methods hi))))"

text \<open>
  An input to evaluate on: the file \<open>a\<close> declares the handle \<open>EOS_HA\<close> and a method on it,
  the file \<open>b\<close> declares the handle \<open>EOS_HB\<close> and the method \<open>EOS_B_Do\<close>, whose first
  argument is an \<open>EOS_HB\<close> and whose second is an \<open>EOS_HA\<close>.
\<close>

definition two_file_input :: consolidation where
  "two_file_input = \<lparr>
     files = [
       (''a'', \<lparr>methods = [(''EOS_A_Do'', \<lparr>return = ''void'', args = [
                    \<lparr>arg_type = ''EOS_HA'', arg_name = ''Handle''\<rparr>]\<rparr>)],
                callbacks = [], enums = [], file_structs = [],
                file_handles = [(''EOS_HA'', \<lparr>methods = [], callbacks = [], enums = []\<rparr>)]\<rparr>),
       (''b'', \<lparr>methods = [(''EOS_B_Do'', \<lparr>return = ''void'', args = [
                    \<lparr>arg_type = ''EOS_HB'', arg_name = ''Handle''\<rparr>,
                    \<lparr>arg_type = ''EOS_HA'', arg_name = ''Other''\<rparr>]\<rparr>)],
                callbacks = [], enums = [], file_structs = [],
                file_handles = [(''EOS_HB'', \<lparr>methods = [], callbacks = [], enums = []\<rparr>)]\<rparr>)],
     tables = initial_globals\<rparr>"

text \<open>
  A second input: the file \<open>a\<close> declares the handle \<open>EOS_HA\<close> and the method
  \<open>EOS_A_Release\<close>, whose argument is an \<open>EOS_HA\<close>.
\<close>

definition release_input :: consolidation where
  "release_input = \<lparr>
     files = [
       (''a'', \<lparr>methods = [(''EOS_A_Release'', \<lparr>return = ''void'', args = [
                    \<lparr>arg_type = ''EOS_HA'', arg_name = ''Handle''\<rparr>]\<rparr>)],
                callbacks = [], enums = [], file_structs = [],
                file_handles = [(''EOS_HA'', \<lparr>methods = [], callbacks = [], enums = []\<rparr>)]\<rparr>)],
     tables = initial_globals\<rparr>"


section \<open>Properties of the string helpers\<close>

lemma lstrip_id: "s \<noteq> [] \<Longrightarrow> hd s \<notin> set chars \<Longrightarrow> lstrip chars s = s"
  by (cases s) (simp_all add: lstrip_def)

lemma rstrip_append:
  "s \<noteq> [] \<Longrightarrow> last s \<notin> set chars \<Longrightarrow> set t \<subseteq> set chars \<Longrightarrow> rstrip chars (s @ t) = s"
proof -
  assume a: "s \<noteq> []" "last s \<notin> set chars" "set t \<subseteq> set chars"
  have "dropWhile (\<lambda>c. c \<in> set chars) (rev t @ rev s) = dropWhile (\<lambda>c. c \<in> set chars) (rev s)"
    using a(3) by (intro dropWhile_append2) auto
  moreover have "dropWhile (\<lambda>c. c \<in> set chars) (rev s) = rev s"
    using a(1,2) by (cases "rev s") (auto simp: last_rev[symmetric] simp del: last_rev)
  ultimately show ?thesis by (simp add: rstrip_def)
qed

lemma rstrip_id: "s \<noteq> [] \<Longrightarrow> last s \<notin> set chars \<Longrightarrow> rstrip chars s = s"
  using rstrip_append[of s chars "[]"] by simp


section \<open>Properties of type decay\<close>

text \<open>
  C10 (as amended). \<open>_decay_eos_type\<close> strips leading characters drawn from the character
  set of \<open>const\<close>, not the literal prefix: for every type string \<open>const X*\<close> where \<open>X\<close>
  begins with a character outside \<open>{c,o,n,s,t}\<close> other than a blank and does not end in
  \<open>*\<close>, \<open>&\<close> or a blank, the result is \<open>X\<close>; and \<open>_decay_eos_type("char*")\<close> is
  \<open>"har"\<close>.
\<close>

theorem decay_const_pointer:
  "(X \<noteq> [] \<and> hd X \<notin> set ''const '' \<and> last X \<notin> set ''*& ''
      \<longrightarrow> decay_eos_type (''const '' @ X @ ''*'') = X)
   \<and> decay_eos_type ''char*'' = ''har''"
proof (intro conjI impI)
  assume a: "X \<noteq> [] \<and> hd X \<notin> set ''const '' \<and> last X \<notin> set ''*& ''"
  then obtain x xs where X: "X = x # xs" by (cases X) auto
  have 1: "lstrip '' '' (lstrip ''const'' (''const '' @ X @ ''*'')) = X @ ''*''"
    using a by (simp add: lstrip_def X)
  have 2: "rstrip ''*'' (X @ ''*'') = X"
    using a by (intro rstrip_append) auto
  have 3: "rstrip ''&'' X = X" "rstrip ''*'' X = X" "rstrip '' '' X = X"
    using a by (auto intro!: rstrip_id)
  have 4: "lstrip '' '' X = X"
    using a by (intro lstrip_id) auto
  show "decay_eos_type (''const '' @ X @ ''*'') = X"
    unfolding decay_eos_type_def 1 2 3 4 ..
next
  show "decay_eos_type ''char*'' = ''har''"
    by (simp add: decay_eos_type_def lstrip_def rstrip_def)
qed

theorem decay_const_pointer_witness:
  "decay_eos_type ''const EOS_Foo*'' = ''EOS_Foo'' \<and> decay_eos_type ''char*'' = ''har''"
  using decay_const_pointer [of "''EOS_Foo''"] by simp

text \<open>
  The condition on the end of \<open>X\<close> is needed: every trailing \<open>*\<close> is stripped, so for
  the pointer-to-pointer type \<open>const EOS_A**\<close> (where \<open>X\<close> is \<open>EOS_A*\<close>) the result is
  \<open>EOS_A\<close>, not \<open>X\<close>.
\<close>

theorem decay_double_pointer_counterexample:
  "hd ''EOS_A*'' \<notin> set ''const'' \<and> decay_eos_type (''const '' @ ''EOS_A*'' @ ''*'') \<noteq> ''EOS_A*''"
  by (simp add: decay_eos_type_def lstrip_def rstrip_def)

section \<open>Properties of the count and array pairing\<close>

lemma find_count_loop_no_exact:
  "\<forall>f\<in>set names. \<not> exact_match field f \<Longrightarrow>
   find_count_loop (split ''_'' (to_snake_case field)) names sims
     = (None, sims @ filter (partial_match field) names)"
  by (induction names arbitrary: sims)
     (auto simp: exact_match_def partial_match_def Let_def)

lemma find_count_loop_exact:
  "\<forall>f\<in>set pre. \<not> exact_match field f \<Longrightarrow> exact_match field g \<Longrightarrow>
   fst (find_count_loop (split ''_'' (to_snake_case field)) (pre @ g # post) sims) = Some g"
  by (induction pre arbitrary: sims)
     (auto simp: exact_match_def partial_match_def Let_def)

lemma find_count_loop_Some:
  "find_count_loop (split ''_'' (to_snake_case field)) names sims = (Some g, r) \<Longrightarrow>
   g \<in> set names \<and> exact_match field g"
  by (induction names arbitrary: sims)
     (auto simp: exact_match_def  Let_def split: if_splits)

lemma find_count_loop_None:
  "find_count_loop (split ''_'' (to_snake_case field)) names sims = (None, r) \<Longrightarrow>
   r = sims @ filter (partial_match field) names"
proof (induction names arbitrary: sims)
  case Nil
  then show ?case by simp
next
  case (Cons a names)
  show ?case
  proof (cases "partial_match field a")
    case True
    with Cons.prems have "find_count_loop (split ''_'' (to_snake_case field)) names (sims @ [a]) = (None, r)"
      by (simp add: partial_match_def Let_def)
    from Cons.IH[OF this] True show ?thesis by simp
  next
    case False
    with Cons.prems have "find_count_loop (split ''_'' (to_snake_case field)) names sims = (None, r)"
      by (auto simp: partial_match_def Let_def split: if_splits)
    from Cons.IH[OF this] False show ?thesis by simp
  qed
qed

lemma not_exact_file: "\<not> exact_match ''Records'' ''FileCount''" by code_simp
lemma not_partial_file: "\<not> partial_match ''Records'' ''FileCount''" by code_simp

text \<open>
  C6 (as amended). The tokens of \<open>FileCount\<close> and \<open>Records\<close> differ (\<open>file\<close> against
  \<open>record\<close>), so \<open>_find_count_field\<close> applied to \<open>Records\<close> never returns \<open>FileCount\<close>,
  whatever the fields are; the pairing succeeds by exact token match when the count field
  is named after the array field: over the fields \<open>RecordCount\<close> and \<open>Records\<close> it returns
  \<open>RecordCount\<close>.
\<close>

theorem records_pairing:
  "fst (find_count_field ''Records'' names) \<noteq> Some ''FileCount''
   \<and> find_count_field ''Records'' [''RecordCount'', ''Records''] = (Some ''RecordCount'', [])"
proof
  show "fst (find_count_field ''Records'' names) \<noteq> Some ''FileCount''"
  proof (cases "find_count_loop (split ''_'' (to_snake_case ''Records'')) names []")
    case (Pair r sims)
    show ?thesis
    proof (cases r)
      case None
      with Pair have s: "sims = filter (partial_match ''Records'') names"
        using find_count_loop_None[of "''Records''" names "[]" sims] by simp
      have "length sims = 1 \<Longrightarrow> sims ! 0 \<noteq> ''FileCount''"
      proof
        assume l: "length sims = 1" and e: "sims ! 0 = ''FileCount''"
        then have "''FileCount'' \<in> set sims" by (metis nth_mem zero_less_one)
        with s show False using not_partial_file by simp
      qed
      with Pair None show ?thesis by (simp add: find_count_field_def Let_def)
    next
      case (Some g)
      with Pair have "exact_match ''Records'' g"
        using find_count_loop_Some[of "''Records''" names "[]" g sims] by simp
      then have "g \<noteq> ''FileCount''" using not_exact_file by auto
      with Pair Some show ?thesis by (simp add: find_count_field_def Let_def)
    qed
  qed
next
  show "find_count_field ''Records'' [''RecordCount'', ''Records''] = (Some ''RecordCount'', [])"
    by code_simp
qed

theorem records_pairing_witness:
  "fst (find_count_field ''Records'' [''FileCount'', ''Records'']) \<noteq> Some ''FileCount''
   \<and> find_count_field ''Records'' [''RecordCount'', ''Records''] = (Some ''RecordCount'', [])"
  using records_pairing [of "[''FileCount'', ''Records'']"] by simp

text \<open>
  Over the fields \<open>FileCount\<close> and \<open>Records\<close> themselves the function finds no candidate,
  prints its error lines and returns \<open>None\<close>.
\<close>

theorem file_count_records_counterexample:
  "find_count_field ''Records'' [''FileCount'', ''Records'']
     = (None, [[Str ''== error:'', Str ''Records'', StrList []],
               [Str ''Records'', StrList [''FileCount'', ''Records'']]])"
  by code_simp

text \<open>
  C7 (as amended). Whenever no count-like field agrees with the array field on every
  compared token and two or more agree on a proper prefix of them, the ambiguity is
  reported (printed with the candidates), no candidate is chosen (\<open>None\<close> is returned),
  and the function returns normally, so the run goes on.
\<close>

theorem ambiguous_pairing_reported:
  assumes "\<forall>f\<in>set names. \<not> exact_match field f"
    and "2 \<le> length (filter (partial_match field) names)"
  shows "find_count_field field names
     = (None, [[Str ''== error:'', Str field, StrList (filter (partial_match field) names)],
               [Str field, StrList names]])"
  using assms by (simp add: find_count_field_def Let_def find_count_loop_no_exact)

theorem ambiguous_pairing_reported_witness:
  "find_count_field ''FileNames'' [''FileACount'', ''FileBSize'', ''FileNames'']
     = (None, [[Str ''== error:'', Str ''FileNames'', StrList [''FileACount'', ''FileBSize'']],
               [Str ''FileNames'', StrList [''FileACount'', ''FileBSize'', ''FileNames'']]])"
proof -
  have e: "\<forall>f\<in>set [''FileACount'', ''FileBSize'', ''FileNames'']. \<not> exact_match ''FileNames'' f"
    by code_simp
  have p: "filter (partial_match ''FileNames'') [''FileACount'', ''FileBSize'', ''FileNames'']
     = [''FileACount'', ''FileBSize'']" by code_simp
  show ?thesis
    using ambiguous_pairing_reported [OF e, unfolded p] by simp
qed

text \<open>
  Candidates that agree on every compared token are not treated so: the first of them is
  returned at once and nothing is printed, also when a second one is as good.
\<close>

theorem two_exact_candidates_counterexample:
  "exact_match ''Records'' ''RecordCount'' \<and> exact_match ''Records'' ''RecordSize''
   \<and> find_count_field ''Records'' [''RecordCount'', ''RecordSize'', ''Records'']
       = (Some ''RecordCount'', [])"
  by code_simp

section \<open>Properties of requirement derivation and expansion\<close>

lemma collect_owners_inner:
  "set (fold (\<lambda>fld r. if sn \<notin> set r \<and> test fld then r @ [sn] else r) fs r)
     = set r \<union> (if \<exists>f\<in>set fs. test f then {sn} else {})"
  by (induction fs arbitrary: r) auto

lemma collect_owners_outer:
  "set (fold (\<lambda>(struct_name, fs) r_owned_structs.
             fold (\<lambda>fld r. if struct_name \<notin> set r \<and> test fld then r @ [struct_name] else r)
                  fs r_owned_structs) st r0)
     = set r0 \<union> {sn. \<exists>fs. (sn, fs) \<in> set st \<and> (\<exists>f\<in>set fs. test f)}"
proof (induction st arbitrary: r0)
  case Nil
  then show ?case by simp
next
  case (Cons p st)
  obtain sn fs where p: "p = (sn, fs)" by (cases p)
  show ?case
    unfolding p fold_simps prod.case Cons.IH collect_owners_inner by auto
qed

lemma set_collect_owners:
  "set (collect_owners test st) = {sn. \<exists>fs. (sn, fs) \<in> set st \<and> (\<exists>f\<in>set fs. test f)}"
  unfolding collect_owners_def collect_owners_outer by simp

lemma collect_owners_keys: "set (collect_owners test st) \<subseteq> set (keys st)"
  unfolding set_collect_owners keys_def by force

lemma map_of_fold_update:
  "map_of (fold (\<lambda>k r. AList.update k (f k) r) ks reqs) k
     = (if k \<in> set ks then Some (f k) else map_of reqs k)"
  by (induction ks arbitrary: reqs) (auto simp: update_conv')

lemma first_pass_lookup:
  "sn \<in> set (keys (structs g)) \<Longrightarrow>
   map_of (first_pass g reqs) sn = Some (own_requirements g sn)"
  by (simp add: first_pass_def map_of_fold_update)

lemma flags_le_refl: "flags_le r r"
  by (simp add: flags_le_def)

lemma flags_le_trans: "flags_le a b \<Longrightarrow> flags_le b c \<Longrightarrow> flags_le a c"
  by (simp add: flags_le_def)

lemma reqs_le_refl: "reqs_le r r"
  by (auto simp: reqs_le_def flags_le_refl)

lemma reqs_le_trans: "reqs_le a b \<Longrightarrow> reqs_le b c \<Longrightarrow> reqs_le a c"
  unfolding reqs_le_def by (meson flags_le_trans)

lemma set_flags_ok:
  assumes "map_of reqs sn = Some r"
  shows "\<exists>reqs' r'. set_flags sn flags reqs = Inr reqs' \<and> reqs_le reqs reqs'
           \<and> map_of reqs' sn = Some r' \<and> flags_le flags r'"
proof (cases "set_from flags \<or> from_eos flags \<or> set_to flags \<or> to_eos flags")
  case True
  then show ?thesis using assms
    by (auto simp: set_flags_def getitem_def reqs_le_def update_conv' flags_le_def)
next
  case False
  then show ?thesis using assms
    by (auto simp: set_flags_def reqs_le_refl flags_le_def)
qed

lemma inherit_from_owner_ok:
  assumes "map_of reqs sn = Some r" and "map_of reqs s = Some rs"
  shows "\<exists>reqs' r'. inherit_from_owner sn s reqs = Inr reqs' \<and> reqs_le reqs reqs'
           \<and> map_of reqs' sn = Some r' \<and> flags_le rs r'"
  using set_flags_ok[OF assms(1), of rs] assms(2)
  by (simp add: inherit_from_owner_def getitem_def)

lemma inherit_from_arr_owner_ok:
  assumes "map_of reqs sn = Some r"
  shows "\<exists>reqs'. inherit_from_arr_owner g sn s reqs = Inr reqs' \<and> reqs_le reqs reqs'"
proof -
  let ?f1 = "\<lparr>set_from = False, from_eos = False, set_to = True, to_eos = False\<rparr>"
  let ?f2 = "\<lparr>set_from = True, from_eos = True, set_to = False, to_eos = False\<rparr>"
  obtain reqs1 where 1: "(if is_input_struct g s then set_flags sn ?f1 reqs else Inr reqs) = Inr reqs1"
    and le1: "reqs_le reqs reqs1"
    using set_flags_ok[OF assms, of ?f1] by (cases "is_input_struct g s") (auto simp: reqs_le_refl)
  from le1 assms obtain r1 where r1: "map_of reqs1 sn = Some r1"
    by (auto simp: reqs_le_def)
  obtain reqs2 where 2: "(if is_output_struct g s \<or> is_arg_out_struct g s then set_flags sn ?f2 reqs1 else Inr reqs1) = Inr reqs2"
    and le2: "reqs_le reqs1 reqs2"
    using set_flags_ok[OF r1, of ?f2]
    by (cases "is_output_struct g s \<or> is_arg_out_struct g s") (auto simp: reqs_le_refl)
  show ?thesis
    unfolding inherit_from_arr_owner_def 1 using 2 le1 le2
    by (auto intro: reqs_le_trans)
qed

lemma fold_err_ok:
  assumes "I s"
    and step: "\<And>x s. x \<in> set xs \<Longrightarrow> I s \<Longrightarrow> \<exists>s'. body x s = Inr s' \<and> I s' \<and> le s s' \<and> Q x s'"
    and refl: "\<And>s. le s s"
    and trans: "\<And>a b c. le a b \<Longrightarrow> le b c \<Longrightarrow> le a c"
    and stable: "\<And>x s s'. Q x s \<Longrightarrow> le s s' \<Longrightarrow> Q x s'"
  shows "\<exists>s'. fold_err body xs s = Inr s' \<and> I s' \<and> le s s' \<and> (\<forall>x\<in>set xs. Q x s')"
  using assms(1,2)
proof (induction xs arbitrary: s)
  case Nil
  then show ?case by (simp add: refl)
next
  case (Cons x xs)
  from Cons.prems(2)[of x s] Cons.prems(1)
  obtain s1 where s1: "body x s = Inr s1" "I s1" "le s s1" "Q x s1" by auto
  have "\<exists>s'. fold_err body xs s1 = Inr s' \<and> I s' \<and> le s1 s' \<and> (\<forall>x\<in>set xs. Q x s')"
    by (rule Cons.IH[OF s1(2)]) (use Cons.prems(2) in auto)
  then obtain s' where s': "fold_err body xs s1 = Inr s'" "I s'" "le s1 s'" "\<forall>x\<in>set xs. Q x s'"
    by auto
  show ?case
    using s1 s' by (auto intro: trans stable)
qed


lemma base_inv_mono: "base_inv g reqs \<Longrightarrow> reqs_le reqs reqs' \<Longrightarrow> base_inv g reqs'"
  unfolding base_inv_def reqs_le_def by (meson flags_le_trans)

lemma base_inv_first_pass: "base_inv g (first_pass g reqs)"
  by (simp add: base_inv_def first_pass_lookup flags_le_refl)

lemma second_pass_step_ok:
  assumes inv: "base_inv g reqs" and Y: "Y \<in> set (keys (structs g))"
  shows "\<exists>reqs'. second_pass_step g Y reqs = Inr reqs' \<and> base_inv g reqs' \<and> reqs_le reqs reqs'
           \<and> (\<forall>X\<in>set (internal_struct_owners g Y).
                 \<exists>r. map_of reqs' Y = Some r \<and> flags_le (own_requirements g X) r)"
proof -
  let ?Q = "\<lambda>X reqs. \<exists>r. map_of reqs Y = Some r \<and> flags_le (own_requirements g X) r"
  have "\<exists>reqs1. fold_err (inherit_from_owner Y) (internal_struct_owners g Y) reqs = Inr reqs1
          \<and> base_inv g reqs1 \<and> reqs_le reqs reqs1
          \<and> (\<forall>X\<in>set (internal_struct_owners g Y). ?Q X reqs1)"
  proof (rule fold_err_ok[where I = "base_inv g" and le = reqs_le and Q = ?Q, OF inv])
    fix X s
    assume X: "X \<in> set (internal_struct_owners g Y)" and s: "base_inv g s"
    from X have "X \<in> set (keys (structs g))"
      using collect_owners_keys by (auto simp: internal_struct_owners_def)
    with s obtain rs where rs: "map_of s X = Some rs" "flags_le (own_requirements g X) rs"
      by (auto simp: base_inv_def)
    from s Y obtain r where r: "map_of s Y = Some r"
      by (auto simp: base_inv_def)
    from inherit_from_owner_ok[OF r rs(1)] obtain s' r' where
      "inherit_from_owner Y X s = Inr s'" "reqs_le s s'" "map_of s' Y = Some r'" "flags_le rs r'"
      by auto
    with rs(2) s show "\<exists>s'. inherit_from_owner Y X s = Inr s' \<and> base_inv g s' \<and> reqs_le s s' \<and> ?Q X s'"
      by (auto intro: base_inv_mono flags_le_trans)
  next
    fix X s s'
    assume "?Q X s" "reqs_le s s'"
    then show "?Q X s'"
      unfolding reqs_le_def by (meson flags_le_trans)
  qed (auto intro: reqs_le_refl reqs_le_trans)
  then obtain reqs1 where 1:
    "fold_err (inherit_from_owner Y) (internal_struct_owners g Y) reqs = Inr reqs1"
    "base_inv g reqs1" "reqs_le reqs reqs1"
    "\<forall>X\<in>set (internal_struct_owners g Y). ?Q X reqs1"
    by auto
  have "\<exists>reqs2. fold_err (inherit_from_arr_owner g Y) (internal_struct_of_arr_owners g Y) reqs1 = Inr reqs2
          \<and> base_inv g reqs2 \<and> reqs_le reqs1 reqs2
          \<and> (\<forall>X\<in>set (internal_struct_of_arr_owners g Y). True)"
  proof (rule fold_err_ok[where I = "base_inv g" and le = reqs_le and Q = "\<lambda>_ _. True", OF 1(2)])
    fix X s
    assume s: "base_inv g s"
    from s Y obtain r where r: "map_of s Y = Some r"
      by (auto simp: base_inv_def)
    from inherit_from_arr_owner_ok[OF r, of g X] s
    show "\<exists>s'. inherit_from_arr_owner g Y X s = Inr s' \<and> base_inv g s' \<and> reqs_le s s' \<and> True"
      by (auto intro: base_inv_mono)
  qed (auto intro: reqs_le_refl reqs_le_trans)
  then obtain reqs2 where 2:
    "fold_err (inherit_from_arr_owner g Y) (internal_struct_of_arr_owners g Y) reqs1 = Inr reqs2"
    "base_inv g reqs2" "reqs_le reqs1 reqs2"
    by auto
  have "\<forall>X\<in>set (internal_struct_owners g Y). ?Q X reqs2"
    using 1(4) 2(3) unfolding reqs_le_def by (meson flags_le_trans)
  with 1 2 show ?thesis
    by (auto simp: second_pass_step_def intro: reqs_le_trans)
qed

lemma second_pass_ok:
  assumes inv: "base_inv g reqs"
  shows "\<exists>reqs'. second_pass g reqs = Inr reqs' \<and> base_inv g reqs'
           \<and> (\<forall>Y\<in>set (keys (structs g)). \<forall>X\<in>set (internal_struct_owners g Y).
                 \<exists>r. map_of reqs' Y = Some r \<and> flags_le (own_requirements g X) r)"
proof -
  let ?Q = "\<lambda>Y reqs. \<forall>X\<in>set (internal_struct_owners g Y).
                 \<exists>r. map_of reqs Y = Some r \<and> flags_le (own_requirements g X) r"
  have "\<exists>reqs'. fold_err (second_pass_step g) (keys (structs g)) reqs = Inr reqs'
          \<and> base_inv g reqs' \<and> reqs_le reqs reqs' \<and> (\<forall>Y\<in>set (keys (structs g)). ?Q Y reqs')"
  proof (rule fold_err_ok[where I = "base_inv g" and le = reqs_le and Q = ?Q, OF inv])
    fix Y s
    assume "Y \<in> set (keys (structs g))" "base_inv g s"
    from second_pass_step_ok[OF this(2,1)]
    show "\<exists>s'. second_pass_step g Y s = Inr s' \<and> base_inv g s' \<and> reqs_le s s' \<and> ?Q Y s'"
      by auto
  next
    fix Y s s'
    assume "?Q Y s" "reqs_le s s'"
    then show "?Q Y s'"
      unfolding reqs_le_def by (meson flags_le_trans)
  qed (auto intro: reqs_le_refl reqs_le_trans)
  then show ?thesis by (auto simp: second_pass_def)
qed

lemma derivation_ok:
  "\<exists>reqs'. make_additional_method_requirements g
       = Inr (g\<lparr>struct2additional_method_requirements := reqs',
                expended_as_args_structs := fold (expand_step g) (structs g) (expended_as_args_structs g)\<rparr>)
     \<and> base_inv g reqs'
     \<and> (\<forall>Y\<in>set (keys (structs g)). \<forall>X\<in>set (internal_struct_owners g Y).
                 \<exists>r. map_of reqs' Y = Some r \<and> flags_le (own_requirements g X) r)"
  using second_pass_ok[OF base_inv_first_pass, of g "struct2additional_method_requirements g"]
  by (auto simp: make_additional_method_requirements_def)


lemma set_fold_expand_step:
  "set (fold (expand_step g) st acc)
     = set acc \<union> {s. \<exists>flds. (s, flds) \<in> set st \<and>
         ((max_options_fields_count_to_expend g > 0
             \<and> int (length flds) \<le> max_options_fields_count_to_expend g
             \<and> is_method_input_only_struct g s)
          \<or> (max_callback_fields_count_to_expend g > 0
             \<and> int (length flds) \<le> max_callback_fields_count_to_expend g
             \<and> is_callback_output_only_struct g s))}"
proof (induction st arbitrary: acc)
  case Nil
  then show ?case by simp
next
  case (Cons p st)
  obtain s flds where p: "p = (s, flds)" by (cases p)
  show ?case
    unfolding p fold_simps Cons.IH
    by (auto simp: expand_step_def Let_def)
qed

lemma requirements_of_ok:
  assumes "Y \<in> set (keys (structs g))"
  shows "\<exists>r. requirements_of g Y = Inr r \<and> flags_le (own_requirements g Y) r
           \<and> (\<forall>X\<in>set (internal_struct_owners g Y). flags_le (own_requirements g X) r)"
proof -
  from derivation_ok[of g] obtain reqs' where d:
    "make_additional_method_requirements g
       = Inr (g\<lparr>struct2additional_method_requirements := reqs',
                expended_as_args_structs := fold (expand_step g) (structs g) (expended_as_args_structs g)\<rparr>)"
    "base_inv g reqs'"
    "\<forall>Y\<in>set (keys (structs g)). \<forall>X\<in>set (internal_struct_owners g Y).
                 \<exists>r. map_of reqs' Y = Some r \<and> flags_le (own_requirements g X) r"
    by blast
  from d(2) assms obtain r where r: "map_of reqs' Y = Some r" "flags_le (own_requirements g Y) r"
    by (auto simp: base_inv_def)
  have "requirements_of g Y = Inr r"
    by (simp add: requirements_of_def d(1) getitem_def r(1))
  moreover have "\<forall>X\<in>set (internal_struct_owners g Y). flags_le (own_requirements g X) r"
    using d(3) assms r(1) by fastforce
  ultimately show ?thesis using r(2) by blast
qed

lemma expended_after_eq:
  "expended_after g = Inr (fold (expand_step g) (structs g) (expended_as_args_structs g))"
  using derivation_ok[of g] by (auto simp: expended_after_def)

lemma expended_after_member:
  assumes "distinct (keys (structs g))"
    and "expended_as_args_structs g = []"
    and "map_of (structs g) s = Some flds"
  shows "\<exists>l. expended_after g = Inr l \<and>
     (s \<in> set l \<longleftrightarrow>
        \<not> is_arg_out_struct g s \<and> \<not> is_internal_struct_of_arr g s
        \<and> ((max_options_fields_count_to_expend g > 0
              \<and> int (length flds) \<le> max_options_fields_count_to_expend g
              \<and> \<not> is_output_struct g s)
           \<or> (max_callback_fields_count_to_expend g > 0
              \<and> int (length flds) \<le> max_callback_fields_count_to_expend g
              \<and> \<not> is_input_struct g s)))"
proof -
  have u: "(s, flds') \<in> set (structs g) \<longleftrightarrow> flds' = flds" for flds'
  proof
    assume "(s, flds') \<in> set (structs g)"
    with assms(1) have "map_of (structs g) s = Some flds'"
      by (simp add: keys_def)
    with assms(3) show "flds' = flds" by simp
  next
    assume "flds' = flds"
    with assms(3) show "(s, flds') \<in> set (structs g)"
      by (simp add: map_of_SomeD)
  qed
  have "s \<in> set (fold (expand_step g) (structs g) []) \<longleftrightarrow>
        \<not> is_arg_out_struct g s \<and> \<not> is_internal_struct_of_arr g s
        \<and> ((max_options_fields_count_to_expend g > 0
              \<and> int (length flds) \<le> max_options_fields_count_to_expend g
              \<and> \<not> is_output_struct g s)
           \<or> (max_callback_fields_count_to_expend g > 0
              \<and> int (length flds) \<le> max_callback_fields_count_to_expend g
              \<and> \<not> is_input_struct g s))"
    unfolding set_fold_expand_step
    by (auto simp: u is_method_input_only_struct_def is_callback_output_only_struct_def)
  then show ?thesis
    by (simp add: expended_after_eq assms(2))
qed

lemma example_model_table:
  "distinct (keys (structs example_model))"
  "expended_as_args_structs example_model = []"
  "max_options_fields_count_to_expend example_model = 3"
  "max_callback_fields_count_to_expend example_model = 3"
  by code_simp+

lemma example_model_Info:
  "map_of (structs example_model) ''EOS_Foo_Info''
     = Some [(''ApiVersion'', ''int32_t''), (''Name'', ''const char*'')]"
  "is_arg_out_struct example_model ''EOS_Foo_Info''"
  "\<not> is_input_struct example_model ''EOS_Foo_Info''"
  "\<not> is_output_struct example_model ''EOS_Foo_Info''"
  "\<not> is_internal_struct example_model ''EOS_Foo_Info''"
  "\<not> is_internal_struct_of_arr example_model ''EOS_Foo_Info''"
  by code_simp+

lemma example_model_QueryCallbackInfo:
  "map_of (structs example_model) ''EOS_Foo_QueryCallbackInfo''
     = Some [(''ResultCode'', ''EOS_EResult''), (''ClientData'', ''void*'')]"
  "\<not> is_arg_out_struct example_model ''EOS_Foo_QueryCallbackInfo''"
  "\<not> is_input_struct example_model ''EOS_Foo_QueryCallbackInfo''"
  "is_output_struct example_model ''EOS_Foo_QueryCallbackInfo''"
  "\<not> is_internal_struct_of_arr example_model ''EOS_Foo_QueryCallbackInfo''"
  by code_simp+

lemma example_model_QueryOptions:
  "map_of (structs example_model) ''EOS_Foo_QueryOptions''
     = Some [(''ApiVersion'', ''int32_t''), (''Inner'', ''EOS_Foo_Inner'')]"
  "\<not> is_arg_out_struct example_model ''EOS_Foo_QueryOptions''"
  "\<not> is_output_struct example_model ''EOS_Foo_QueryOptions''"
  "\<not> is_internal_struct example_model ''EOS_Foo_QueryOptions''"
  "\<not> is_internal_struct_of_arr example_model ''EOS_Foo_QueryOptions''"
  by code_simp+

lemma example_model_Id:
  "map_of (structs example_model) ''EOS_Foo_Id'' = Some [(''Value'', ''int32_t'')]"
  "\<not> is_arg_out_struct example_model ''EOS_Foo_Id''"
  "\<not> is_output_struct example_model ''EOS_Foo_Id''"
  "\<not> is_input_struct example_model ''EOS_Foo_Id''"
  "\<not> is_internal_struct_of_arr example_model ''EOS_Foo_Id''"
  "internal_struct_owners example_model ''EOS_Foo_Id'' = [''EOS_Foo_Pair'']"
  by code_simp+
lemma requirements_of_eq:
  "requirements_of g s =
     (case second_pass g (first_pass g (struct2additional_method_requirements g)) of
        Inl e \<Rightarrow> Inl e | Inr reqs \<Rightarrow> getitem reqs s)"
  by (simp add: requirements_of_def make_additional_method_requirements_def split: sum.splits)

lemma field_count_without_api_version_le:
  "field_count_without_api_version flds \<le> int (length flds)"
  by (simp add: field_count_without_api_version_def)

text \<open>
  C1 (as amended). For a struct of the model that is not a scalar field of another struct.
  It is placed in the list \<open>expended_as_args_structs\<close> whenever it is neither an
  out-argument nor the element of an array field and either its field count is at or
  below the positive threshold \<open>max_options_fields_count_to_expend\<close> and it is not an
  output, or its field count is at or below the positive threshold
  \<open>max_callback_fields_count_to_expend\<close> and it is not an input. It is placed in the list
  only if it is neither an out-argument nor the element of an array field and either the
  number of its fields other than \<open>ApiVersion\<close> is at or below the positive input
  threshold and it is not an output, or that number is at or below the positive callback
  threshold and it is not an input. So an out-argument and an array element are never in
  the list, and an output-only struct within the callback threshold is: the same list
  holds the structs flattened into a callback payload. Nothing is said of a struct whose
  field count exceeds a threshold only because \<open>ApiVersion\<close> is counted.
\<close>

theorem expanded_bounds:
  assumes "distinct (keys (structs g))"
    and "expended_as_args_structs g = []"
    and "map_of (structs g) s = Some flds"
    and "\<not> is_internal_struct g s"
  shows "\<exists>l. expended_after g = Inr l
     \<and> (\<not> is_arg_out_struct g s \<and> \<not> is_internal_struct_of_arr g s
        \<and> ((max_options_fields_count_to_expend g > 0
              \<and> int (length flds) \<le> max_options_fields_count_to_expend g
              \<and> \<not> is_output_struct g s)
           \<or> (max_callback_fields_count_to_expend g > 0
              \<and> int (length flds) \<le> max_callback_fields_count_to_expend g
              \<and> \<not> is_input_struct g s))
        \<longrightarrow> s \<in> set l)
     \<and> (s \<in> set l \<longrightarrow>
        \<not> is_arg_out_struct g s \<and> \<not> is_internal_struct_of_arr g s
        \<and> ((max_options_fields_count_to_expend g > 0
              \<and> field_count_without_api_version flds \<le> max_options_fields_count_to_expend g
              \<and> \<not> is_output_struct g s)
           \<or> (max_callback_fields_count_to_expend g > 0
              \<and> field_count_without_api_version flds \<le> max_callback_fields_count_to_expend g
              \<and> \<not> is_input_struct g s)))"
proof -
  from expended_after_member[OF assms(1-3)] obtain l where l: "expended_after g = Inr l"
    and m: "s \<in> set l \<longleftrightarrow>
        \<not> is_arg_out_struct g s \<and> \<not> is_internal_struct_of_arr g s
        \<and> ((max_options_fields_count_to_expend g > 0
              \<and> int (length flds) \<le> max_options_fields_count_to_expend g
              \<and> \<not> is_output_struct g s)
           \<or> (max_callback_fields_count_to_expend g > 0
              \<and> int (length flds) \<le> max_callback_fields_count_to_expend g
              \<and> \<not> is_input_struct g s))"
    by blast
  have le: "field_count_without_api_version flds \<le> int (length flds)"
    by (rule field_count_without_api_version_le)
  have "s \<in> set l \<longrightarrow>
        \<not> is_arg_out_struct g s \<and> \<not> is_internal_struct_of_arr g s
        \<and> ((max_options_fields_count_to_expend g > 0
              \<and> field_count_without_api_version flds \<le> max_options_fields_count_to_expend g
              \<and> \<not> is_output_struct g s)
           \<or> (max_callback_fields_count_to_expend g > 0
              \<and> field_count_without_api_version flds \<le> max_callback_fields_count_to_expend g
              \<and> \<not> is_input_struct g s))"
    using m le by auto
  with l m show ?thesis by blast
qed

theorem expanded_bounds_witness:
  "\<exists>l. expended_after example_model = Inr l \<and> ''EOS_Foo_QueryOptions'' \<in> set l"
proof -
  from expanded_bounds[OF example_model_table(1,2) example_model_QueryOptions(1,4)]
  obtain l where l: "expended_after example_model = Inr l"
    and i: "\<not> is_arg_out_struct example_model ''EOS_Foo_QueryOptions''
        \<and> \<not> is_internal_struct_of_arr example_model ''EOS_Foo_QueryOptions''
        \<and> ((max_options_fields_count_to_expend example_model > 0
              \<and> int (length [(''ApiVersion'', ''int32_t''), (''Inner'', ''EOS_Foo_Inner'')])
                   \<le> max_options_fields_count_to_expend example_model
              \<and> \<not> is_output_struct example_model ''EOS_Foo_QueryOptions'')
           \<or> (max_callback_fields_count_to_expend example_model > 0
              \<and> int (length [(''ApiVersion'', ''int32_t''), (''Inner'', ''EOS_Foo_Inner'')])
                   \<le> max_callback_fields_count_to_expend example_model
              \<and> \<not> is_input_struct example_model ''EOS_Foo_QueryOptions''))
        \<longrightarrow> ''EOS_Foo_QueryOptions'' \<in> set l"
    by blast
  from i have "''EOS_Foo_QueryOptions'' \<in> set l"
    by (simp add: example_model_table example_model_QueryOptions)
  with l show ?thesis by blast
qed

text \<open>
  In the example model \<open>EOS_Foo_Info\<close> has two fields and the out-argument role only, and
  is not in the list; \<open>EOS_Foo_QueryCallbackInfo\<close> is a callback argument, and is in it.
\<close>

theorem expanded_roles_counterexample:
  "is_arg_out_struct example_model ''EOS_Foo_Info''
   \<and> \<not> is_input_struct example_model ''EOS_Foo_Info''
   \<and> \<not> is_output_struct example_model ''EOS_Foo_Info''
   \<and> \<not> is_internal_struct example_model ''EOS_Foo_Info''
   \<and> \<not> is_internal_struct_of_arr example_model ''EOS_Foo_Info''
   \<and> map_of (structs example_model) ''EOS_Foo_Info''
       = Some [(''ApiVersion'', ''int32_t''), (''Name'', ''const char*'')]
   \<and> max_options_fields_count_to_expend example_model = 3
   \<and> (\<exists>l. expended_after example_model = Inr l \<and> ''EOS_Foo_Info'' \<notin> set l)
   \<and> is_output_struct example_model ''EOS_Foo_QueryCallbackInfo''
   \<and> (\<exists>l. expended_after example_model = Inr l \<and> ''EOS_Foo_QueryCallbackInfo'' \<in> set l)"
  using expended_after_member[OF example_model_table(1,2) example_model_Info(1)]
    expended_after_member[OF example_model_table(1,2) example_model_QueryCallbackInfo(1)]
  by (simp add: example_model_table example_model_Info example_model_QueryCallbackInfo)

text \<open>
  C2. No struct should be both expanded and internal. The first test of
  \<open>__is_method_input_only_struct\<close> and of \<open>__is_callback_output_only_struct\<close> asks twice
  whether the struct is the element of an array field and never whether it is a scalar
  field: in the example model \<open>EOS_Foo_Id\<close> is a scalar field of \<open>EOS_Foo_Pair\<close> and is
  placed in \<open>expended_as_args_structs\<close>.
\<close>

theorem internal_struct_expanded:
  "internal_struct_owners example_model ''EOS_Foo_Id'' = [''EOS_Foo_Pair'']
   \<and> is_internal_struct example_model ''EOS_Foo_Id''
   \<and> (\<exists>l. expended_after example_model = Inr l \<and> ''EOS_Foo_Id'' \<in> set l)"
  using expended_after_member[OF example_model_table(1,2) example_model_Id(1)]
  by (simp add: example_model_table example_model_Id is_internal_struct_def)

text \<open>
  C3 (as amended). Requirement derivation never raises, and for every struct of the model:
  if it is an output (a method's return type or a callback's argument) both \<open>set_from\<close>
  and \<open>from\<close> are true for it; if it is an out-argument (an argument whose name starts
  with \<open>Out\<close>) \<open>set_from\<close> is true for it.
\<close>

theorem requirements_of_roles:
  assumes "struct_name \<in> set (keys (structs g))"
  shows "\<exists>r. requirements_of g struct_name = Inr r
           \<and> (is_output_struct g struct_name \<longrightarrow> set_from r \<and> from_eos r)
           \<and> (is_arg_out_struct g struct_name \<longrightarrow> set_from r)"
proof -
  from requirements_of_ok[OF assms] obtain r where
    r: "requirements_of g struct_name = Inr r" "flags_le (own_requirements g struct_name) r"
    by blast
  from r(2) have "is_output_struct g struct_name \<longrightarrow> set_from r \<and> from_eos r"
    by (auto simp: flags_le_def own_requirements_def Let_def split: if_splits)
  moreover from r(2) have "is_arg_out_struct g struct_name \<longrightarrow> set_from r"
    by (auto simp: flags_le_def own_requirements_def Let_def split: if_splits)
  ultimately show ?thesis using r(1) by blast
qed

theorem requirements_of_roles_witness:
  "\<exists>r. requirements_of example_model ''EOS_Foo_QueryCallbackInfo'' = Inr r
        \<and> set_from r \<and> from_eos r"
proof -
  have k: "''EOS_Foo_QueryCallbackInfo'' \<in> set (keys (structs example_model))" by code_simp
  have o: "is_output_struct example_model ''EOS_Foo_QueryCallbackInfo''" by code_simp
  from requirements_of_roles[OF k] o show ?thesis by blast
qed

text \<open>
  The out-argument role alone leaves \<open>from\<close> false: \<open>EOS_Foo_Info\<close> is an out-argument
  of \<open>EOS_Foo_Query\<close> and nothing else.
\<close>

theorem out_argument_counterexample:
  "is_arg_out_struct example_model ''EOS_Foo_Info''
   \<and> requirements_of example_model ''EOS_Foo_Info''
       = Inr \<lparr>set_from = True, from_eos = False, set_to = False, to_eos = False\<rparr>"
  unfolding requirements_of_eq by code_simp

text \<open>
  C4 (as amended). The flags go from the container to the member: for every pair of
  structs \<open>X\<close> and \<open>Y\<close> such that \<open>X\<close> has a scalar (non-array) field whose decayed type is
  \<open>Y\<close>, after requirement derivation the member \<open>Y\<close> has every flag that the roles of
  \<open>X\<close> itself make true for \<open>X\<close> (the entry the first pass writes for \<open>X\<close>).
\<close>

theorem member_inherits_owner_flags:
  assumes "(X, flds) \<in> set (structs g)"
    and "(fld, ty) \<in> set flds"
    and "\<not> is_internal_struct_arr_field ty fld"
    and "decay_eos_type ty = Y"
    and "Y \<in> set (keys (structs g))"
  shows "\<exists>r. requirements_of g Y = Inr r \<and> flags_le (own_requirements g X) r"
proof -
  have "X \<in> set (internal_struct_owners g Y)"
    unfolding internal_struct_owners_def set_collect_owners
    using assms(1-4) by (auto simp: scalar_owner_field_def)
  with requirements_of_ok[OF assms(5)] show ?thesis by blast
qed

theorem member_inherits_owner_flags_witness:
  "\<exists>r. requirements_of example_model ''EOS_Foo_Inner'' = Inr r \<and> set_to r \<and> to_eos r"
proof -
  have 1: "(''EOS_Foo_QueryOptions'', [(''ApiVersion'', ''int32_t''), (''Inner'', ''EOS_Foo_Inner'')])
             \<in> set (structs example_model)" by code_simp
  have 2: "(''Inner'', ''EOS_Foo_Inner'') \<in> set [(''ApiVersion'', ''int32_t''), (''Inner'', ''EOS_Foo_Inner'')]"
    by simp
  have 3: "\<not> is_internal_struct_arr_field ''EOS_Foo_Inner'' ''Inner''" by code_simp
  have 4: "decay_eos_type ''EOS_Foo_Inner'' = ''EOS_Foo_Inner''" by code_simp
  have 5: "''EOS_Foo_Inner'' \<in> set (keys (structs example_model))" by code_simp
  have 6: "own_requirements example_model ''EOS_Foo_QueryOptions''
     = \<lparr>set_from = False, from_eos = False, set_to = True, to_eos = True\<rparr>" by code_simp
  from member_inherits_owner_flags[OF 1 2 3 4 5] show ?thesis
    unfolding 6 by (auto simp: flags_le_def)
qed

text \<open>
  The container does not inherit from the member: \<open>EOS_Foo_Inner\<close> is a scalar field of
  \<open>EOS_Foo_QueryOptions\<close> and has \<open>set_from\<close> and \<open>from\<close>, the container has neither.
\<close>

theorem container_does_not_inherit_counterexample:
  "internal_struct_owners example_model ''EOS_Foo_Inner'' = [''EOS_Foo_QueryOptions'']
   \<and> requirements_of example_model ''EOS_Foo_Inner''
       = Inr \<lparr>set_from = True, from_eos = True, set_to = True, to_eos = True\<rparr>
   \<and> requirements_of example_model ''EOS_Foo_QueryOptions''
       = Inr \<lparr>set_from = False, from_eos = False, set_to = True, to_eos = True\<rparr>"
  unfolding requirements_of_eq by code_simp

section \<open>Properties of the declaration scanner\<close>

lemma union_loop_error: "union_loop fp lines i union_fileds out = Inl e \<Longrightarrow> e = IndexError"
proof (induction fp lines i union_fileds out rule: union_loop.induct)
  case (1 fp lines i union_fileds out)
  let ?line = "rstrip NL (lstrip TAB (lines ! i))"
  let ?splited = "rsplit_max '' '' 1 (hd (rsplit '';'' ?line))"
  show ?case
  proof (cases "i \<ge> length lines \<or> startswith ''}'' (lstrip TAB (lines ! i))")
    case True
    with "1.prems" show ?thesis
      by (subst (asm) union_loop.simps) (auto split: if_splits)
  next
    case False
    then have a: "\<not> length lines \<le> i" "\<not> startswith ''}'' (lstrip TAB (lines ! i))" by auto
    show ?thesis
    proof (cases "is_skipped_line ?line")
      case True
      with "1.prems" have "union_loop fp lines (i + 1) union_fileds out = Inl e"
        by (subst (asm) union_loop.simps) (simp add: a Let_def)
      from "1.IH"(1)[OF a refl True this] show ?thesis .
    next
      case s: False
      show ?thesis
      proof (cases "length ?splited \<noteq> 2")
        case True
        with "1.prems" s have
          "union_loop fp lines (i + 1) union_fileds (out @ split_error ''-ERROR: '' fp lines i) = Inl e"
          by (subst (asm) union_loop.simps) (simp add: a Let_def)
        from "1.IH"(2)[OF a refl s refl refl True this] show ?thesis .
      next
        case False
        with "1.prems" s have
          "union_loop fp lines (i + 1) (AList.update (?splited ! 1) (?splited ! 0) union_fileds) out = Inl e"
          by (subst (asm) union_loop.simps) (simp add: a Let_def)
        from "1.IH"(3)[OF a refl s refl refl False this] show ?thesis .
      qed
    qed
  qed
qed

lemma enum_loop_unterminated:
  "\<forall>l\<in>set (drop i lines). \<not> startswith '');'' l \<Longrightarrow> enum_loop lines i members = Inl IndexError"
proof (induction lines i members rule: enum_loop.induct)
  case (1 lines i members)
  show ?case
  proof (cases "i \<ge> length lines")
    case True
    then show ?thesis by (subst enum_loop.simps) simp
  next
    case False
    then have d: "drop i lines = lines ! i # drop (i + 1) lines"
      by (simp add: Cons_nth_drop_Suc)
    with "1.prems" have n: "\<not> startswith '');'' (lines ! i)"
      and r: "\<forall>l\<in>set (drop (i + 1) lines). \<not> startswith '');'' l" by auto
    show ?thesis
      using False n "1.IH"(1)[OF False n refl _ r] "1.IH"(2)[OF False n refl _ r]
      by (subst enum_loop.simps) (simp add: Let_def)
  qed
qed

lemma struct_loop_unterminated:
  "\<forall>l\<in>set (drop i lines). \<not> startswith ''));'' l \<Longrightarrow> struct_loop fp lines i flds out = Inl IndexError"
proof (induction fp lines i flds out rule: struct_loop.induct)
  case (1 fp lines i flds out)
  let ?line = "rstrip NL (lstrip TAB (lines ! i))"
  let ?decl = "hd (rsplit '';'' ?line)"
  show ?case
  proof (cases "i \<ge> length lines")
    case True
    then show ?thesis by (subst struct_loop.simps) simp
  next
    case False
    then have d: "drop i lines = lines ! i # drop (i + 1) lines"
      by (simp add: Cons_nth_drop_Suc)
    with "1.prems" have n: "\<not> startswith ''));'' (lines ! i)"
      and r: "\<forall>l\<in>set (drop (i + 1) lines). \<not> startswith ''));'' l" by auto
    have u: "struct_loop fp lines (k + 1)
               (AList.update (union_field_name (lines ! k)) (union_type_of uf) flds) o'' = Inl IndexError"
      if "\<not> is_skipped_line ?line" "startswith ''union'' ?decl"
         "union_loop fp lines (i + 2) [] out = Inr (k, uf, o'')" for k uf o''
    proof -
      from union_loop_index[OF that(3)] have "i + 1 \<le> k + 1" by simp
      then have "set (drop (k + 1) lines) \<subseteq> set (drop (i + 1) lines)"
        by (rule set_drop_subset_set_drop)
      with r have "\<forall>l\<in>set (drop (k + 1) lines). \<not> startswith ''));'' l" by blast
      from "1.IH"(2)[OF False n refl that(1) refl that(2) that(3) refl refl this]
      show ?thesis .
    qed
    show ?thesis
    proof (cases "is_skipped_line ?line")
      case True
      with False n "1.IH"(1)[OF False n refl True r] show ?thesis
        by (subst struct_loop.simps) (simp add: Let_def)
    next
      case s: False
      show ?thesis
      proof (cases "startswith ''union'' ?decl")
        case True
        show ?thesis
        proof (cases "union_loop fp lines (i + 2) [] out")
          case (Inl e)
          with union_loop_error[OF Inl] False n s True show ?thesis
            by (subst struct_loop.simps) (simp add: Let_def)
        next
          case (Inr p)
          obtain k uf o'' where p: "p = (k, uf, o'')" by (cases p)
          from u[OF s True Inr[unfolded p]] False n s True Inr p show ?thesis
            by (subst struct_loop.simps) (simp add: Let_def)
        qed
      next
        case nu: False
        from False n s nu "1.IH"(3)[OF False n refl s refl nu refl _ r]
          "1.IH"(4)[OF False n refl s refl nu refl _ r]
        show ?thesis
          by (subst struct_loop.simps) (simp add: Let_def)
      qed
    qed
  qed
qed

lemma startswith_append: "startswith p s \<Longrightarrow> \<exists>r. s = p @ r"
  by (metis append_take_drop_id startswith_def)

lemma startswith_struct_others:
  assumes "startswith ''EOS_STRUCT'' line"
  shows "\<not> startswith ''#define EOS_'' line" "\<not> startswith ''EOS_ENUM('' line"
    "\<not> startswith ''EOS_DECLARE_FUNC'' line" "\<not> startswith ''EOS_DECLARE_CALLBACK'' line"
proof -
  from startswith_append[OF assms] obtain r where l: "line = ''EOS_STRUCT'' @ r" ..
  show "\<not> startswith ''#define EOS_'' line" "\<not> startswith ''EOS_ENUM('' line"
    "\<not> startswith ''EOS_DECLARE_FUNC'' line" "\<not> startswith ''EOS_DECLARE_CALLBACK'' line"
    unfolding l startswith_def by simp_all
qed

lemma split_from_nonempty: "split_from sep m k cur s \<noteq> []"
  by (induction sep m k cur s rule: split_from.induct) auto

lemma startswith_enum_others:
  assumes "startswith ''EOS_ENUM('' line"
  shows "\<not> startswith ''#define EOS_'' line"
    and "hd (split ''('' line) = ''EOS_ENUM''"
    and "\<exists>rest. getindex (split ''('' line) 1 = Inr rest"
proof -
  from startswith_append[OF assms] obtain r where l: "line = ''EOS_ENUM('' @ r" ..
  show "\<not> startswith ''#define EOS_'' line"
    unfolding l startswith_def by simp
  have "\<exists>m. split ''('' line = ''EOS_ENUM'' # split_from ''('' m 0 [] r"
    unfolding l split_def split_max_def by (simp add: startswith_def) (rule exI, rule refl)
  then obtain m where s: "split ''('' line = ''EOS_ENUM'' # split_from ''('' m 0 [] r" ..
  show "hd (split ''('' line) = ''EOS_ENUM''"
    by (simp add: s)
  show "\<exists>rest. getindex (split ''('' line) 1 = Inr rest"
    using split_from_nonempty[of "''(''" m 0 "[]" r]
    by (cases "split_from ''('' m 0 [] r") (auto simp: s getindex_def)
qed

lemma update_infos_result:
  "update_infos il f st
     = (if il \<in> set (keys (file_lower2infos st))
        then Inr (st\<lparr>file_lower2infos :=
               AList.update il (f (the (map_of (file_lower2infos st) il))) (file_lower2infos st)\<rparr>)
        else Inl KeyError)"
proof (cases "map_of (file_lower2infos st) il")
  case None
  then have "il \<notin> set (keys (file_lower2infos st))"
    by (simp add: keys_def map_of_eq_None_iff)
  with None show ?thesis
    by (simp add: update_infos_def getitem_def)
next
  case (Some v)
  then have "il \<in> set (keys (file_lower2infos st))"
    by (metis keys_def map_of_eq_None_iff option.distinct(1) set_map)
  with Some show ?thesis
    by (simp add: update_infos_def getitem_def)
qed

lemma parse_loop_unterminated_enum:
  assumes i: "i < length lines"
    and e: "startswith ''EOS_ENUM('' (lines ! i)"
    and h: "\<not> (contains ''typedef struct '' (lines ! i) \<and> contains ''Handle*'' (lines ! i))"
    and r: "\<forall>l\<in>set (drop (i + 1) lines). \<not> startswith '');'' l"
  shows "parse_loop interface_lower fp lines i st
     = Inl (if interface_lower \<in> set (keys (file_lower2infos st)) then IndexError else KeyError)"
proof -
  from startswith_enum_others[OF e] obtain rest where
    o: "\<not> startswith ''#define EOS_'' (lines ! i)" "hd (split ''('' (lines ! i)) = ''EOS_ENUM''"
       "getindex (split ''('' (lines ! i)) 1 = Inr rest" by blast
  have "parse_step interface_lower fp lines i st
     = Inl (if interface_lower \<in> set (keys (file_lower2infos st)) then IndexError else KeyError)"
  proof -
    from h have h': "(contains ''typedef struct '' (lines ! i) \<and> contains ''Handle*'' (lines ! i)) = False"
      by simp
    show ?thesis
      unfolding parse_step_def Let_def h'
      using e o enum_loop_unterminated[OF r]
      by (simp add: update_infos_result)
  qed
  with i show ?thesis
    by (subst parse_loop.simps) simp
qed

lemma parse_loop_unterminated_struct:
  assumes i: "i < length lines"
    and e: "startswith ''EOS_STRUCT'' (lines ! i)"
    and h: "\<not> (contains ''typedef struct '' (lines ! i) \<and> contains ''Handle*'' (lines ! i))"
    and r: "\<forall>l\<in>set (drop (i + 1) lines). \<not> startswith ''));'' l"
  shows "parse_loop interface_lower fp lines i st
     = Inl (if interface_lower \<in> set (keys (file_lower2infos st)) then IndexError else KeyError)"
proof -
  have "parse_step interface_lower fp lines i st
     = Inl (if interface_lower \<in> set (keys (file_lower2infos st)) then IndexError else KeyError)"
  proof -
    from h have h': "(contains ''typedef struct '' (lines ! i) \<and> contains ''Handle*'' (lines ! i)) = False"
      by simp
    show ?thesis
      unfolding parse_step_def Let_def h'
      using e startswith_struct_others[OF e] struct_loop_unterminated[OF r]
      by (simp add: update_infos_result)
  qed
  with i show ?thesis
    by (subst parse_loop.simps) simp
qed

lemma struct_loop_unsplittable:
  assumes "i < length lines"
    and "\<not> startswith ''));'' (lines ! i)"
    and "\<not> is_skipped_line (rstrip NL (lstrip TAB (lines ! i)))"
    and "\<not> startswith ''union'' (hd (rsplit '';'' (rstrip NL (lstrip TAB (lines ! i)))))"
    and "length (rsplit_max '' '' 1 (hd (rsplit '';'' (rstrip NL (lstrip TAB (lines ! i)))))) \<noteq> 2"
  shows "struct_loop fp lines i flds out
     = struct_loop fp lines (i + 1) flds (out @ split_error ''ERROR: '' fp lines i)"
  using assms by (subst struct_loop.simps) (simp add: Let_def)



text \<open>
  C8 (as amended). While a struct block is scanned, a declaration line that does not
  split at a blank into a type and a name is reported, by printing the file, the line
  index and the line, and skipped: the scan goes on at the next line with the fields and
  the earlier output unchanged, and raises nothing for that line. A struct block or an
  enum block that never reaches its terminator does not complete normally: the scanner
  reads past the last line and raises \<open>IndexError\<close>, which ends the run (\<open>KeyError\<close> when
  the file has no entry in the table to write the block into).
\<close>

theorem scanner_errors:
  "(i < length lines \<and> \<not> startswith ''));'' (lines ! i)
      \<and> \<not> is_skipped_line (rstrip NL (lstrip TAB (lines ! i)))
      \<and> \<not> startswith ''union'' (hd (rsplit '';'' (rstrip NL (lstrip TAB (lines ! i)))))
      \<and> length (rsplit_max '' '' 1 (hd (rsplit '';'' (rstrip NL (lstrip TAB (lines ! i)))))) \<noteq> 2
    \<longrightarrow> struct_loop fp lines i flds out
          = struct_loop fp lines (i + 1) flds (out @ split_error ''ERROR: '' fp lines i))
   \<and> (i < length lines \<and> startswith ''EOS_STRUCT'' (lines ! i)
      \<and> \<not> (contains ''typedef struct '' (lines ! i) \<and> contains ''Handle*'' (lines ! i))
      \<and> (\<forall>l\<in>set (drop (i + 1) lines). \<not> startswith ''));'' l)
    \<longrightarrow> parse_loop interface_lower fp lines i st
          = Inl (if interface_lower \<in> set (keys (file_lower2infos st)) then IndexError else KeyError))
   \<and> (i < length lines \<and> startswith ''EOS_ENUM('' (lines ! i)
      \<and> \<not> (contains ''typedef struct '' (lines ! i) \<and> contains ''Handle*'' (lines ! i))
      \<and> (\<forall>l\<in>set (drop (i + 1) lines). \<not> startswith '');'' l)
    \<longrightarrow> parse_loop interface_lower fp lines i st
          = Inl (if interface_lower \<in> set (keys (file_lower2infos st)) then IndexError else KeyError))"
  using struct_loop_unsplittable[of i lines fp flds out]
    parse_loop_unterminated_struct[of i lines interface_lower fp st]
    parse_loop_unterminated_enum[of i lines interface_lower fp st]
  by blast

theorem scanner_errors_witness:
  "struct_loop ''foo.h'' unsplittable_lines 1 [] []
     = struct_loop ''foo.h'' unsplittable_lines (1 + 1) []
         ([] @ split_error ''ERROR: '' ''foo.h'' unsplittable_lines 1)
   \<and> parse_file ''foo'' ''foo.h'' unterminated_struct_lines foo_scan_state = Inl IndexError
   \<and> parse_file ''foo'' ''foo.h'' unterminated_enum_lines foo_scan_state = Inl IndexError"
proof -
  have 1: "1 < length unsplittable_lines \<and> \<not> startswith ''));'' (unsplittable_lines ! 1)
      \<and> \<not> is_skipped_line (rstrip NL (lstrip TAB (unsplittable_lines ! 1)))
      \<and> \<not> startswith ''union'' (hd (rsplit '';'' (rstrip NL (lstrip TAB (unsplittable_lines ! 1)))))
      \<and> length (rsplit_max '' '' 1 (hd (rsplit '';'' (rstrip NL (lstrip TAB (unsplittable_lines ! 1)))))) \<noteq> 2"
    by code_simp
  have 2: "0 < length unterminated_struct_lines \<and> startswith ''EOS_STRUCT'' (unterminated_struct_lines ! 0)
      \<and> \<not> (contains ''typedef struct '' (unterminated_struct_lines ! 0)
             \<and> contains ''Handle*'' (unterminated_struct_lines ! 0))
      \<and> (\<forall>l\<in>set (drop (0 + 1) unterminated_struct_lines). \<not> startswith ''));'' l)"
    by code_simp
  have 3: "0 < length unterminated_enum_lines \<and> startswith ''EOS_ENUM('' (unterminated_enum_lines ! 0)
      \<and> \<not> (contains ''typedef struct '' (unterminated_enum_lines ! 0)
             \<and> contains ''Handle*'' (unterminated_enum_lines ! 0))
      \<and> (\<forall>l\<in>set (drop (0 + 1) unterminated_enum_lines). \<not> startswith '');'' l)"
    by code_simp
  have k: "''foo'' \<in> set (keys (file_lower2infos foo_scan_state))" by code_simp
  have a: "struct_loop ''foo.h'' unsplittable_lines 1 [] []
     = struct_loop ''foo.h'' unsplittable_lines (1 + 1) []
         ([] @ split_error ''ERROR: '' ''foo.h'' unsplittable_lines 1)"
    by (rule scanner_errors[where i = 1 and lines = unsplittable_lines and fp = "''foo.h''"
          and flds = "[]" and out = "[]", THEN conjunct1, THEN mp, OF 1])
  from scanner_errors[where i = 0 and lines = unterminated_struct_lines and fp = "''foo.h''"
         and interface_lower = "''foo''" and st = foo_scan_state] 2 k
  have b: "parse_file ''foo'' ''foo.h'' unterminated_struct_lines foo_scan_state = Inl IndexError"
    by (simp add: parse_file_def)
  from scanner_errors[where i = 0 and lines = unterminated_enum_lines and fp = "''foo.h''"
         and interface_lower = "''foo''" and st = foo_scan_state] 3 k
  have c: "parse_file ''foo'' ''foo.h'' unterminated_enum_lines foo_scan_state = Inl IndexError"
    by (simp add: parse_file_def)
  from a b c show ?thesis by (intro conjI)
qed


text \<open>
  A file whose struct block holds the line \<open>broken;\<close> is scanned to its end: the result is
  the table with the struct and its other field, and the report in the output.
\<close>

theorem unsplittable_line_counterexample:
  "parse_file ''foo'' ''foo.h'' unsplittable_lines foo_scan_state
     = Inr \<lparr>file_lower2infos =
              [(''foo'', \<lparr>methods = [], callbacks = [], enums = [],
                  file_structs = [(''EOS_Foo_Options'', [(''ApiVersion'', ''int32_t'')])],
                  file_handles = []\<rparr>)],
            latest_macros = [],
            stdout = [[Str (''ERROR: foo.h:1'' @ NL)], [Str (TAB @ ''broken;'' @ NL)]]\<rparr>"
  by code_simp

section \<open>Properties of the consolidation\<close>

lemma fold_err_Inr:
  assumes "fold_err body xs s = Inr s'"
    and step: "\<And>x s s1. x \<in> set xs \<Longrightarrow> body x s = Inr s1 \<Longrightarrow> le s s1 \<and> Q x s1"
    and refl: "\<And>s. le s s"
    and trans: "\<And>a b c. le a b \<Longrightarrow> le b c \<Longrightarrow> le a c"
    and stable: "\<And>x s s'. Q x s \<Longrightarrow> le s s' \<Longrightarrow> Q x s'"
  shows "le s s' \<and> (\<forall>x\<in>set xs. Q x s')"
  using assms(1,2)
proof (induction xs arbitrary: s)
  case Nil
  then show ?case by (simp add: refl)
next
  case (Cons x xs)
  from Cons.prems(1) obtain s1 where s1: "body x s = Inr s1" "fold_err body xs s1 = Inr s'"
    by (auto split: sum.splits)
  from Cons.prems(2)[of x s s1] s1(1) have a: "le s s1" "Q x s1" by auto
  have "le s1 s' \<and> (\<forall>x\<in>set xs. Q x s')"
    by (rule Cons.IH[OF s1(2)]) (use Cons.prems(2) in auto)
  with a show ?case
    by (auto intro: trans stable)
qed

lemma keys_update_subset: "set (keys d) \<subseteq> set (keys (AList.update k v d))"
  by (auto simp: keys_def update_keys)

lemma key_in_update: "k \<in> set (keys (AList.update k v d))"
  by (auto simp: keys_def update_keys)

lemma fold_arg_scan_to_remove:
  "fold (arg_scan m mi) as (h, cb, hs, tr) = (h', cb', hs', tr') \<Longrightarrow> set tr \<subseteq> set tr'"
proof (induction as arbitrary: h cb hs tr)
  case Nil
  then show ?case by simp
next
  case (Cons a as)
  obtain h1 cb1 hs1 tr1 where s: "arg_scan m mi a (h, cb, hs, tr) = (h1, cb1, hs1, tr1)"
    by (cases "arg_scan m mi a (h, cb, hs, tr)") auto
  then have "set tr \<subseteq> set tr1"
    by (auto simp: arg_scan_def Let_def split: if_splits)
  moreover from Cons.prems s have "fold (arg_scan m mi) as (h1, cb1, hs1, tr1) = (h', cb', hs', tr')"
    by simp
  from Cons.IH[OF this] have "set tr1 \<subseteq> set tr'" .
  ultimately show ?case by blast
qed

lemma method_scan_mono:
  assumes "method_scan (m, mi) ps = Inr ps'"
  shows "set (keys (p_interfaces ps)) \<subseteq> set (keys (p_interfaces ps'))
       \<and> set (to_remove_methods ps) \<subseteq> set (to_remove_methods ps')"
proof (cases "is_interface_getter m")
  case True
  with assms show ?thesis
    using keys_update_subset[of "p_interfaces ps" "interface_name m" mi]
    by (auto simp: method_scan_def)
next
  case False
  obtain h cb hs tr where f: "fold (arg_scan m mi) (args mi) ('''', '''', p_handles ps, to_remove_methods ps)
      = (h, cb, hs, tr)"
    by (cases "fold (arg_scan m mi) (args mi) ('''', '''', p_handles ps, to_remove_methods ps)") auto
  from fold_arg_scan_to_remove[OF f] have t: "set (to_remove_methods ps) \<subseteq> set tr" .
  from assms False f t show ?thesis
    by (auto simp: method_scan_def split: if_splits sum.splits)
qed

lemma method_scan_getter:
  assumes "is_interface_getter m" and "method_scan (m, mi) ps = Inr ps'"
  shows "interface_name m \<in> set (keys (p_interfaces ps')) \<and> m \<in> set (to_remove_methods ps')"
  using assms key_in_update[of "interface_name m" mi "p_interfaces ps"]
  by (auto simp: method_scan_def)

lemma method_loop_getters:
  assumes "fold_err method_scan ms ps = Inr ps'"
  shows "set (keys (p_interfaces ps)) \<subseteq> set (keys (p_interfaces ps'))
       \<and> (\<forall>(m, mi)\<in>set ms. is_interface_getter m \<longrightarrow>
             interface_name m \<in> set (keys (p_interfaces ps')) \<and> m \<in> set (to_remove_methods ps'))"
proof -
  let ?le = "\<lambda>a b. set (keys (p_interfaces a)) \<subseteq> set (keys (p_interfaces b))
       \<and> set (to_remove_methods a) \<subseteq> set (to_remove_methods b)"
  let ?Q = "\<lambda>p a. case p of (m, mi) \<Rightarrow> is_interface_getter m \<longrightarrow>
             interface_name m \<in> set (keys (p_interfaces a)) \<and> m \<in> set (to_remove_methods a)"
  have "?le ps ps' \<and> (\<forall>x\<in>set ms. ?Q x ps')"
  proof (rule fold_err_Inr[where le = ?le and Q = ?Q, OF assms])
    fix x s s1
    assume "method_scan x s = Inr s1"
    then show "?le s s1 \<and> ?Q x s1"
      using method_scan_mono[of "fst x" "snd x" s s1] method_scan_getter[of "fst x" "snd x" s s1]
      by (cases x) auto
  qed auto
  then show ?thesis by auto
qed

lemma pop_keys:
  assumes "pop d m = Inr d'"
  shows "set (keys d') = set (keys d) - {m}"
proof -
  from assms have "d' = AList.delete m d"
    by (auto simp: pop_def split: option.splits)
  then have "keys d' = removeAll m (keys d)"
    by (simp add: keys_def delete_keys)
  then show ?thesis by simp
qed

lemma pop_all_keys: "pop_all ms d = Inr d' \<Longrightarrow> set (keys d') = set (keys d) - set ms"
  unfolding pop_all_def
proof (induction ms arbitrary: d)
  case Nil
  then show ?case by simp
next
  case (Cons m ms)
  from Cons.prems obtain d1 where d1: "pop d m = Inr d1" "fold_err (\<lambda>m d'. pop d' m) ms d1 = Inr d'"
    by (auto split: sum.splits)
  from Cons.IH[OF d1(2)] pop_keys[OF d1(1)] show ?case by auto
qed


lemma map_of_map_entry:
  "map_of (map (\<lambda>(k, x). if k = j then (k, f x) else (k, x)) al) k'
     = (if k' = j then map_option f (map_of al k') else map_of al k')"
  by (induction al) auto

lemma keys_map_entry:
  "keys (map (\<lambda>(k, x). if k = j then (k, f x) else (k, x)) al) = keys al"
  by (induction al) (auto simp: keys_def)

lemma file_pass_files:
  assumes "file_pass il jl c = Inr c'"
  shows "\<exists>il_infos infos ps methods'.
     map_of (files c) il = Some il_infos \<and> map_of (files c) jl = Some infos
     \<and> fold_err method_scan (methods infos)
             \<lparr>p_handles = file_handles il_infos, p_callbacks = callbacks infos,
              p_interfaces = interfaces (tables c), p_release_methods = release_methods (tables c),
              to_remove_methods = []\<rparr> = Inr ps
     \<and> pop_all (to_remove_methods ps) (methods infos) = Inr methods'
     \<and> files c' = map (\<lambda>(k, x). if k = jl then (k, (\<lambda>x. x\<lparr>methods := methods', callbacks := p_callbacks ps\<rparr>) x)
                                  else (k, x))
                     (map (\<lambda>(k, x). if k = il then (k, (\<lambda>x. x\<lparr>file_handles := p_handles ps\<rparr>) x) else (k, x))
                        (files c))
     \<and> tables c' = (tables c)\<lparr>interfaces := p_interfaces ps,
                                        release_methods := p_release_methods ps\<rparr>"
  using assms unfolding file_pass_def getitem_def
  by (auto split: option.splits sum.splits)

lemma file_pass_props:
  assumes "file_pass il jl c = Inr c'"
  shows "keys (files c') = keys (files c)"
    and "\<And>k. set (methods_of_file c' k) \<subseteq> set (methods_of_file c k)"
    and "\<And>k. k \<noteq> jl \<Longrightarrow> methods_of_file c' k = methods_of_file c k"
    and "\<And>m. is_interface_getter m \<Longrightarrow> m \<notin> set (methods_of_file c' jl)"
    and "\<And>m. is_interface_getter m \<Longrightarrow> m \<in> set (methods_of_file c jl) \<Longrightarrow>
           interface_name m \<in> set (keys (interfaces (tables c')))"
    and "set (keys (interfaces (tables c))) \<subseteq> set (keys (interfaces (tables c')))"
    and "unhandled_methods (tables c') = unhandled_methods (tables c)"
proof -
  from file_pass_files[OF assms] obtain il_infos infos ps methods' where
    il: "map_of (files c) il = Some il_infos" and jl: "map_of (files c) jl = Some infos"
    and ps: "fold_err method_scan (methods infos)
             \<lparr>p_handles = file_handles il_infos, p_callbacks = callbacks infos,
              p_interfaces = interfaces (tables c), p_release_methods = release_methods (tables c),
              to_remove_methods = []\<rparr> = Inr ps"
    and pp: "pop_all (to_remove_methods ps) (methods infos) = Inr methods'"
    and f: "files c' = map (\<lambda>(k, x). if k = jl then (k, (\<lambda>x. x\<lparr>methods := methods', callbacks := p_callbacks ps\<rparr>) x)
                                  else (k, x))
                     (map (\<lambda>(k, x). if k = il then (k, (\<lambda>x. x\<lparr>file_handles := p_handles ps\<rparr>) x) else (k, x))
                        (files c))"
    and t: "tables c' = (tables c)\<lparr>interfaces := p_interfaces ps,
                                        release_methods := p_release_methods ps\<rparr>"
    by blast
  have mk: "set (keys methods') = set (keys (methods infos)) - set (to_remove_methods ps)"
    by (rule pop_all_keys[OF pp])
  have lk: "map_of (files c') k
     = (if k = jl then map_option (\<lambda>x. x\<lparr>methods := methods', callbacks := p_callbacks ps\<rparr>)
                         (if k = il then map_option (\<lambda>x. x\<lparr>file_handles := p_handles ps\<rparr>) (map_of (files c) k)
                          else map_of (files c) k)
        else if k = il then map_option (\<lambda>x. x\<lparr>file_handles := p_handles ps\<rparr>) (map_of (files c) k)
        else map_of (files c) k)" for k
    unfolding f map_of_map_entry by simp
  have mf: "methods_of_file c' k = (if k = jl then keys methods' else methods_of_file c k)" for k
    unfolding methods_of_file_def lk using il jl
    by (auto split: option.splits)
  have mj: "methods_of_file c jl = keys (methods infos)"
    by (simp add: methods_of_file_def jl)
  note g = method_loop_getters[OF ps]
  show "keys (files c') = keys (files c)"
    unfolding f keys_map_entry ..
  show "set (methods_of_file c' k) \<subseteq> set (methods_of_file c k)" for k
    using mk mj by (auto simp: mf)
  show "k \<noteq> jl \<Longrightarrow> methods_of_file c' k = methods_of_file c k" for k
    by (simp add: mf)
  show "m \<notin> set (methods_of_file c' jl)" if "is_interface_getter m" for m
  proof
    assume "m \<in> set (methods_of_file c' jl)"
    then have a: "m \<in> set (keys (methods infos))" "m \<notin> set (to_remove_methods ps)"
      using mk by (auto simp: mf)
    from a(1) obtain mi where "(m, mi) \<in> set (methods infos)"
      by (auto simp: keys_def)
    with g that have "m \<in> set (to_remove_methods ps)" by auto
    with a(2) show False ..
  qed
  show "interface_name m \<in> set (keys (interfaces (tables c')))"
    if "is_interface_getter m" "m \<in> set (methods_of_file c jl)" for m
  proof -
    from that(2) obtain mi where "(m, mi) \<in> set (methods infos)"
      by (auto simp: mj keys_def)
    with g that(1) show ?thesis by (auto simp: t)
  qed
  show "set (keys (interfaces (tables c))) \<subseteq> set (keys (interfaces (tables c')))"
    using g by (simp add: t)
  show "unhandled_methods (tables c') = unhandled_methods (tables c)"
    by (simp add: t)
qed


lemma move_methods_getter:
  assumes mm: "move_methods c = Inr c'"
    and g: "is_interface_getter m"
    and jf: "m \<in> set (methods_of_file c jf)"
  shows "keys (files c') = keys (files c)"
    and "interface_name m \<in> set (keys (interfaces (tables c')))"
    and "\<And>k. m \<notin> set (methods_of_file c' k)"
    and "unhandled_methods (tables c') = unhandled_methods (tables c)"
proof -
  let ?done = "\<lambda>c. interface_name m \<in> set (keys (interfaces (tables c)))"
  let ?le = "\<lambda>a b. keys (files b) = keys (files a)
       \<and> (\<forall>k. set (methods_of_file b k) \<subseteq> set (methods_of_file a k))
       \<and> (m \<in> set (methods_of_file a jf) \<or> ?done a \<longrightarrow> m \<in> set (methods_of_file b jf) \<or> ?done b)
       \<and> unhandled_methods (tables b) = unhandled_methods (tables a)"
  have step: "?le a b \<and> m \<notin> set (methods_of_file b jl)" if "file_pass il jl a = Inr b" for il jl a b
    using file_pass_props[OF that] g
    by (cases "jl = jf") auto
  have inner: "?le a b \<and> (\<forall>k. m \<notin> set (methods_of_file b k))"
    if "fold_err (file_pass il) (keys (files a)) a = Inr b" for il a b
  proof -
    have r: "?le a b \<and> (\<forall>jl\<in>set (keys (files a)). m \<notin> set (methods_of_file b jl))"
    proof (rule fold_err_Inr[where le = ?le and Q = "\<lambda>jl b. m \<notin> set (methods_of_file b jl)", OF that])
      fix x s s1
      assume "file_pass il x s = Inr s1"
      from step[OF this] show "?le s s1 \<and> m \<notin> set (methods_of_file s1 x)" .
    next
      fix a b c
      assume "?le a b" "?le b c"
      then show "?le a c" by (auto; blast)
    qed auto
    have "m \<notin> set (methods_of_file b k)" for k
    proof (cases "k \<in> set (keys (files a))")
      case True
      with r show ?thesis by blast
    next
      case False
      with r have "k \<notin> set (keys (files b))" by simp
      then have "map_of (files b) k = None"
        by (simp add: keys_def map_of_eq_None_iff)
      then show ?thesis by (simp add: methods_of_file_def)
    qed
    with r show ?thesis by blast
  qed
  have outer: "?le c c' \<and> (\<forall>il\<in>set (keys (files c)). \<forall>k. m \<notin> set (methods_of_file c' k))"
  proof (rule fold_err_Inr[where le = ?le and Q = "\<lambda>il b. \<forall>k. m \<notin> set (methods_of_file b k)",
          OF mm[unfolded move_methods_def]])
    fix x s s1
    assume "fold_err (file_pass x) (keys (files s)) s = Inr s1"
    from inner[OF this] show "?le s s1 \<and> (\<forall>k. m \<notin> set (methods_of_file s1 k))" .
  next
    fix a b c
    assume "?le a b" "?le b c"
    then show "?le a c" by (auto; blast)
  qed auto
  have "jf \<in> set (keys (files c))"
  proof (cases "map_of (files c) jf")
    case None
    with jf show ?thesis by (simp add: methods_of_file_def)
  next
    case (Some x)
    then have "(jf, x) \<in> set (files c)" by (rule map_of_SomeD)
    then show ?thesis by (force simp: keys_def)
  qed
  with outer have clean: "\<forall>k. m \<notin> set (methods_of_file c' k)" by blast
  from outer show "keys (files c') = keys (files c)" by simp
  from outer jf clean show "interface_name m \<in> set (keys (interfaces (tables c')))" by blast
  from clean show "\<And>k. m \<notin> set (methods_of_file c' k)" by blast
  from outer show "unhandled_methods (tables c') = unhandled_methods (tables c)" by simp
qed


lemma set_keys_update: "set (keys (AList.update k v d)) = insert k (set (keys d))"
  unfolding keys_def update_keys by auto

lemma keys_update_all: "set (keys (update_all src dst)) = set (keys dst) \<union> set (keys src)"
  unfolding update_all_def
proof (induction src arbitrary: dst)
  case Nil
  then show ?case by (simp add: keys_def)
next
  case (Cons p src)
  obtain k v where p: "p = (k, v)" by (cases p)
  have "set (keys (p # src)) = insert k (set (keys src))"
    by (simp add: keys_def p)
  then show ?case
    unfolding p fold_simps prod.case Cons.IH set_keys_update by auto
qed

lemma move_enums_preserves:
  assumes "fold_err move_enums_step fs g = Inr g'"
  shows "interfaces g' = interfaces g \<and> unhandled_methods g' = unhandled_methods g"
proof -
  let ?le = "\<lambda>a b. interfaces b = interfaces a \<and> unhandled_methods b = unhandled_methods a"
  have "?le g g' \<and> (\<forall>x\<in>set fs. True)"
  proof (rule fold_err_Inr[where le = ?le and Q = "\<lambda>_ _. True", OF assms])
    fix x s s1
    assume "move_enums_step x s = Inr s1"
    then show "?le s s1 \<and> True"
      by (cases x) (auto simp: move_enums_step_def Let_def split: if_splits sum.splits)
  qed auto
  then show ?thesis by simp
qed

lemma file_leftovers_fold:
  "interfaces (fold file_leftovers fs g) = interfaces g
   \<and> set (keys (unhandled_methods (fold file_leftovers fs g)))
       = set (keys (unhandled_methods g)) \<union> (\<Union>(k, x)\<in>set fs. set (keys (methods x)))"
proof (induction fs arbitrary: g)
  case Nil
  then show ?case by simp
next
  case (Cons p fs)
  obtain k x where p: "p = (k, x)" by (cases p)
  have 1: "interfaces (file_leftovers p g) = interfaces g"
    and 2: "set (keys (unhandled_methods (file_leftovers p g)))
              = set (keys (unhandled_methods g)) \<union> set (keys (methods x))"
    by (simp_all add: p file_leftovers_def keys_update_all)
  have "fold file_leftovers (p # fs) g = fold file_leftovers fs (file_leftovers p g)"
    by simp
  with Cons.IH[of "file_leftovers p g"] 1 2 show ?case
    by (auto simp: p)
qed

lemma make_requirements_preserves:
  assumes "make_additional_method_requirements g = Inr g'"
  shows "interfaces g' = interfaces g \<and> unhandled_methods g' = unhandled_methods g
       \<and> handles g' = handles g"
  using assms derivation_ok[of g] by auto

lemma consolidate_getter:
  assumes d: "distinct (keys (files c))"
    and jf: "m \<in> set (methods_of_file c jf)"
    and g: "is_interface_getter m"
    and u: "m \<notin> set (keys (unhandled_methods (tables c)))"
    and r: "consolidate c = Inr res"
  shows "interface_name m \<in> set (keys (interfaces res)) \<and> m \<notin> set (keys (unhandled_methods res))"
proof -
  from r obtain c1 g1 where c1: "move_methods c = Inr c1"
    and g1: "fold_err move_enums_step (files (move_structs (move_handles c1)))
               (tables (move_structs (move_handles c1))) = Inr g1"
    and res: "make_additional_method_requirements
               (fold file_leftovers (files (move_structs (move_handles c1))) g1) = Inr res"
    by (auto simp: consolidate_def Let_def split: sum.splits)
  note mm = move_methods_getter[OF c1 g jf]
  have f2: "files (move_structs (move_handles c1)) = files c1"
    by (simp add: move_structs_def move_handles_def)
  have t2: "interfaces (tables (move_structs (move_handles c1))) = interfaces (tables c1)"
    "unhandled_methods (tables (move_structs (move_handles c1))) = unhandled_methods (tables c1)"
    by (simp_all add: move_structs_def move_handles_def)
  from move_enums_preserves[OF g1] t2 have p1: "interfaces g1 = interfaces (tables c1)"
    "unhandled_methods g1 = unhandled_methods (tables c1)" by simp_all
  have clean: "m \<notin> set (keys (methods x))" if "(k, x) \<in> set (files c1)" for k x
  proof -
    from d mm(1) have "distinct (map fst (files c1))" by (simp add: keys_def)
    with that have "map_of (files c1) k = Some x" by simp
    with mm(3)[of k] show ?thesis by (simp add: methods_of_file_def)
  qed
  let ?g2 = "fold file_leftovers (files c1) g1"
  from file_leftovers_fold[of "files c1" g1]
  have i2: "interfaces ?g2 = interfaces g1"
    and u2: "set (keys (unhandled_methods ?g2))
       = set (keys (unhandled_methods g1)) \<union> (\<Union>(k, x)\<in>set (files c1). set (keys (methods x)))"
    by simp_all
  from u2 clean p1(2) mm(4) u have "m \<notin> set (keys (unhandled_methods ?g2))" by auto
  moreover from i2 p1(1) mm(2) have "interface_name m \<in> set (keys (interfaces ?g2))" by simp
  ultimately show ?thesis
    using make_requirements_preserves[OF res[unfolded f2]] by simp
qed

lemma accessor_input_result:
  "consolidate accessor_input
     = Inr (initial_globals\<lparr>interfaces :=
              [(''Platform'', \<lparr>return = ''EOS_HPlatform'',
                  args = [\<lparr>arg_type = ''const EOS_Platform_Options*'', arg_name = ''Options''\<rparr>]\<rparr>),
               (''FooBar'', \<lparr>return = ''EOS_HBar'', args = []\<rparr>)]\<rparr>)"
  by code_simp


text \<open>
  C5 (as amended). For an input in which the method table of some file contains
  \<open>Foo_GetBarInterface\<close>: whenever consolidation completes, the interface table contains
  the key \<open>FooBar\<close> (of the pieces of an accessor's name only \<open>EOS\<close> and \<open>Platform\<close> are
  dropped; \<open>Get\<close> and \<open>Interface\<close> are stripped from the others) and the table of
  unhandled methods does not contain \<open>Foo_GetBarInterface\<close>. On the input that holds
  this one method consolidation does complete.
\<close>

theorem accessor_extracted:
  assumes "distinct (keys (files c))"
    and "''Foo_GetBarInterface'' \<in> set (methods_of_file c jf)"
    and "''Foo_GetBarInterface'' \<notin> set (keys (unhandled_methods (tables c)))"
    and "consolidate c = Inr res"
  shows "''FooBar'' \<in> set (keys (interfaces res))
       \<and> ''Foo_GetBarInterface'' \<notin> set (keys (unhandled_methods res))"
proof -
  have g: "is_interface_getter ''Foo_GetBarInterface''" by code_simp
  have n: "interface_name ''Foo_GetBarInterface'' = ''FooBar''" by code_simp
  from consolidate_getter[OF assms(1,2) g assms(3,4)] show ?thesis
    unfolding n .
qed

theorem accessor_extracted_witness:
  "\<exists>res. consolidate accessor_input = Inr res \<and> ''FooBar'' \<in> set (keys (interfaces res))
         \<and> ''Foo_GetBarInterface'' \<notin> set (keys (unhandled_methods res))"
proof -
  have 1: "distinct (keys (files accessor_input))" by code_simp
  have 2: "''Foo_GetBarInterface'' \<in> set (methods_of_file accessor_input ''foo'')" by code_simp
  have 3: "''Foo_GetBarInterface'' \<notin> set (keys (unhandled_methods (tables accessor_input)))"
    by code_simp
  from accessor_extracted[OF 1 2 3 accessor_input_result] accessor_input_result
  show ?thesis by blast
qed


text \<open>
  On that input the keys of the interface table are \<open>Platform\<close>, which the module starts
  with, and \<open>FooBar\<close>: there is no key \<open>Bar\<close>.
\<close>

theorem accessor_key_counterexample:
  "\<exists>res. consolidate accessor_input = Inr res
         \<and> keys (interfaces res) = [''Platform'', ''FooBar'']
         \<and> ''Bar'' \<notin> set (keys (interfaces res))"
proof -
  have "keys (interfaces (initial_globals\<lparr>interfaces :=
              [(''Platform'', \<lparr>return = ''EOS_HPlatform'',
                  args = [\<lparr>arg_type = ''const EOS_Platform_Options*'', arg_name = ''Options''\<rparr>]\<rparr>),
               (''FooBar'', \<lparr>return = ''EOS_HBar'', args = []\<rparr>)]\<rparr>)) = [''Platform'', ''FooBar'']"
    by (simp add: keys_def)
  with accessor_input_result show ?thesis by simp
qed

section \<open>Ownership of methods by handles\<close>

lemma keys_add_handle_method: "keys (add_handle_method h m mi hs) = keys hs"
  unfolding add_handle_method_def by (rule keys_map_entry)

lemma keys_add_handle_callback: "keys (add_handle_callback h cb ci hs) = keys hs"
  unfolding add_handle_callback_def by (rule keys_map_entry)

lemma in_keys_map_of: "k \<in> set (keys d) \<longleftrightarrow> map_of d k \<noteq> None"
  by (simp add: keys_def map_of_eq_None_iff)

lemma map_of_add_handle_method:
  "map_of (add_handle_method h m mi hs) h'
     = (if h' = h then map_option (\<lambda>hi. hi\<lparr>methods := AList.update m mi (methods hi)\<rparr>) (map_of hs h')
        else map_of hs h')"
  unfolding add_handle_method_def by (rule map_of_map_entry)

lemma handle_methods_add_method:
  "set (handle_methods (add_handle_method h m mi hs) h')
     = (if h' = h \<and> h \<in> set (keys hs) then insert m (set (handle_methods hs h'))
        else set (handle_methods hs h'))"
proof (cases "h' = h")
  case False
  then show ?thesis
    by (simp add: handle_methods_def map_of_add_handle_method)
next
  case True
  show ?thesis
  proof (cases "map_of hs h")
    case None
    then have "h \<notin> set (keys hs)" by (simp add: in_keys_map_of)
    with None True show ?thesis
      by (simp add: handle_methods_def map_of_add_handle_method)
  next
    case (Some hi)
    then have "h \<in> set (keys hs)" by (simp add: in_keys_map_of)
    with Some True show ?thesis
      by (simp add: handle_methods_def map_of_add_handle_method set_keys_update)
  qed
qed

lemma handle_methods_add_callback:
  "handle_methods (add_handle_callback h cb ci hs) h' = handle_methods hs h'"
  unfolding handle_methods_def add_handle_callback_def map_of_map_entry
  by (cases "map_of hs h'") auto

lemma matching_handles_keys:
  "keys hs' = keys hs \<Longrightarrow> matching_handles hs' mi = matching_handles hs mi"
  by (simp add: matching_handles_def)

lemma fold_arg_scan:
  assumes "fold (arg_scan m mi) as (ht, cb, hs, tr) = (ht', cb', hs', tr')"
  shows "(let ms = filter (\<lambda>t. t \<in> set (keys hs)) (map (\<lambda>a. decay_eos_type (arg_type a)) as)
          in if m \<in> set tr \<or> ms = [] then ht' = ht \<and> hs' = hs \<and> tr' = tr
             else ht' = hd ms \<and> hs' = add_handle_method (hd ms) m mi hs \<and> tr' = tr @ [m])"
  using assms
proof (induction as arbitrary: ht cb hs tr)
  case Nil
  then show ?case by simp
next
  case (Cons a as)
  let ?t = "decay_eos_type (arg_type a)"
  obtain ht1 cb1 hs1 tr1 where s: "arg_scan m mi a (ht, cb, hs, tr) = (ht1, cb1, hs1, tr1)"
    by (cases "arg_scan m mi a (ht, cb, hs, tr)") auto
  from Cons.prems s have r: "fold (arg_scan m mi) as (ht1, cb1, hs1, tr1) = (ht', cb', hs', tr')"
    by simp
  note ih = Cons.IH[OF r]
  show ?case
  proof (cases "?t \<in> set (keys hs) \<and> m \<notin> set tr")
    case True
    with s have 1: "ht1 = ?t" "hs1 = add_handle_method ?t m mi hs" "tr1 = tr @ [m]"
      by (auto simp: arg_scan_def Let_def)
    from ih have "ht' = ht1 \<and> hs' = hs1 \<and> tr' = tr1"
      by (simp add: 1 Let_def)
    with 1 True show ?thesis by (simp add: Let_def)
  next
    case False
    with s have 1: "ht1 = ht" "hs1 = hs" "tr1 = tr"
      by (auto simp: arg_scan_def Let_def)
    from ih False show ?thesis
      by (auto simp: 1 Let_def)
  qed
qed


lemma method_scan_nongetter:
  assumes "method_scan (m', mi') ps = Inr ps'" and "\<not> is_interface_getter m'"
  shows "\<exists>hs tr.
     (let ms = matching_handles (p_handles ps) mi'
      in if m' \<in> set (to_remove_methods ps) \<or> ms = []
         then hs = p_handles ps \<and> tr = to_remove_methods ps
         else hs = add_handle_method (hd ms) m' mi' (p_handles ps) \<and> tr = to_remove_methods ps @ [m'])
     \<and> keys (p_handles ps') = keys hs
     \<and> (\<forall>h. handle_methods (p_handles ps') h = handle_methods hs h)
     \<and> (to_remove_methods ps' = tr \<or> to_remove_methods ps' = tr @ [m'])
     \<and> (\<not> endswith ''_Release'' m' \<longrightarrow> to_remove_methods ps' = tr)"
proof -
  obtain ht cb hs tr where f:
    "fold (arg_scan m' mi') (args mi') ([], [], p_handles ps, to_remove_methods ps) = (ht, cb, hs, tr)"
    by (cases "fold (arg_scan m' mi') (args mi') ([], [], p_handles ps, to_remove_methods ps)") auto
  from fold_arg_scan[OF f] have 1:
    "(let ms = matching_handles (p_handles ps) mi'
      in if m' \<in> set (to_remove_methods ps) \<or> ms = []
         then hs = p_handles ps \<and> tr = to_remove_methods ps
         else hs = add_handle_method (hd ms) m' mi' (p_handles ps) \<and> tr = to_remove_methods ps @ [m'])"
    by (auto simp: matching_handles_def Let_def)
  from assms f have 2: "keys (p_handles ps') = keys hs
     \<and> (\<forall>h. handle_methods (p_handles ps') h = handle_methods hs h)
     \<and> (to_remove_methods ps' = tr \<or> to_remove_methods ps' = tr @ [m'])
     \<and> (\<not> endswith ''_Release'' m' \<longrightarrow> to_remove_methods ps' = tr)"
    by (auto simp: method_scan_def keys_add_handle_callback handle_methods_add_callback
             split: if_splits sum.splits)
  from 1 2 show ?thesis by blast
qed

lemma method_scan_keys:
  assumes "method_scan (m', mi') ps = Inr ps'"
  shows "keys (p_handles ps') = keys (p_handles ps)"
proof (cases "is_interface_getter m'")
  case True
  with assms show ?thesis by (auto simp: method_scan_def)
next
  case False
  from method_scan_nongetter[OF assms False] obtain hs where
    "hs = p_handles ps \<or> (\<exists>h. hs = add_handle_method h m' mi' (p_handles ps))"
    "keys (p_handles ps') = keys hs"
    by (auto simp: Let_def split: if_splits)
  then show ?thesis
    by (auto simp: keys_add_handle_method)
qed

lemma method_scan_other:
  assumes "method_scan (m', mi') ps = Inr ps'" and "m' \<noteq> m"
  shows "(m \<in> set (to_remove_methods ps') \<longleftrightarrow> m \<in> set (to_remove_methods ps))
       \<and> (\<forall>h. m \<in> set (handle_methods (p_handles ps') h) \<longleftrightarrow> m \<in> set (handle_methods (p_handles ps) h))"
proof (cases "is_interface_getter m'")
  case True
  with assms show ?thesis by (auto simp: method_scan_def)
next
  case False
  from method_scan_nongetter[OF assms(1) False] obtain hs tr where
    0: "(let ms = matching_handles (p_handles ps) mi'
      in if m' \<in> set (to_remove_methods ps) \<or> ms = []
         then hs = p_handles ps \<and> tr = to_remove_methods ps
         else hs = add_handle_method (hd ms) m' mi' (p_handles ps) \<and> tr = to_remove_methods ps @ [m'])"
    and 2: "\<forall>h. handle_methods (p_handles ps') h = handle_methods hs h"
    and 3: "to_remove_methods ps' = tr \<or> to_remove_methods ps' = tr @ [m']"
    by blast
  from 0 have 1: "(hs = p_handles ps \<and> tr = to_remove_methods ps)
        \<or> (hs = add_handle_method (hd (matching_handles (p_handles ps) mi')) m' mi' (p_handles ps)
            \<and> tr = to_remove_methods ps @ [m'])"
    by (simp add: Let_def split: if_splits)
  from 1 assms(2) have a: "m \<in> set tr \<longleftrightarrow> m \<in> set (to_remove_methods ps)"
    by auto
  from 1 assms(2) have b: "m \<in> set (handle_methods hs h) \<longleftrightarrow> m \<in> set (handle_methods (p_handles ps) h)" for h
    by (auto simp: handle_methods_add_method split: if_splits)
  from 2 b have "\<forall>h. m \<in> set (handle_methods (p_handles ps') h) \<longleftrightarrow> m \<in> set (handle_methods (p_handles ps) h)"
    by simp
  moreover from 3 a assms(2) have "m \<in> set (to_remove_methods ps') \<longleftrightarrow> m \<in> set (to_remove_methods ps)"
    by auto
  ultimately show ?thesis by blast
qed

lemma method_scan_target:
  assumes "method_scan (m, mi) ps = Inr ps'"
    and "\<not> is_interface_getter m" and "\<not> endswith ''_Release'' m"
    and "m \<notin> set (to_remove_methods ps)"
  shows "(let ms = matching_handles (p_handles ps) mi
          in if ms = []
             then m \<notin> set (to_remove_methods ps')
                  \<and> (\<forall>h. m \<in> set (handle_methods (p_handles ps') h)
                          \<longleftrightarrow> m \<in> set (handle_methods (p_handles ps) h))
             else m \<in> set (to_remove_methods ps')
                  \<and> (\<forall>h. m \<in> set (handle_methods (p_handles ps') h)
                          \<longleftrightarrow> h = hd ms \<or> m \<in> set (handle_methods (p_handles ps) h)))"
proof -
  let ?ms = "matching_handles (p_handles ps) mi"
  from method_scan_nongetter[OF assms(1,2)] obtain hs tr where
    a: "(let ms = matching_handles (p_handles ps) mi
      in if m \<in> set (to_remove_methods ps) \<or> ms = []
         then hs = p_handles ps \<and> tr = to_remove_methods ps
         else hs = add_handle_method (hd ms) m mi (p_handles ps) \<and> tr = to_remove_methods ps @ [m])"
    and e: "\<forall>h. handle_methods (p_handles ps') h = handle_methods hs h"
    and c: "\<not> endswith ''_Release'' m \<longrightarrow> to_remove_methods ps' = tr"
    by blast
  show ?thesis
  proof (cases "?ms = []")
    case True
    with a c assms(3,4) have "hs = p_handles ps" "to_remove_methods ps' = to_remove_methods ps"
      by (simp_all add: Let_def)
    with True assms(4) e show ?thesis by (simp add: Let_def)
  next
    case False
    then have "hd ?ms \<in> set ?ms" by simp
    then have k: "hd ?ms \<in> set (keys (p_handles ps))"
      by (simp add: matching_handles_def)
    from False a c assms(3,4) have "hs = add_handle_method (hd ?ms) m mi (p_handles ps)"
      "to_remove_methods ps' = to_remove_methods ps @ [m]" by (simp_all add: Let_def)
    with False k e show ?thesis
      by (simp add: Let_def handle_methods_add_method)
  qed
qed


lemma method_loop_absent:
  assumes "fold_err method_scan L ps = Inr ps'" and "m \<notin> set (keys L)"
  shows "keys (p_handles ps') = keys (p_handles ps)
       \<and> (m \<in> set (to_remove_methods ps') \<longleftrightarrow> m \<in> set (to_remove_methods ps))
       \<and> (\<forall>h. m \<in> set (handle_methods (p_handles ps') h) \<longleftrightarrow> m \<in> set (handle_methods (p_handles ps) h))"
proof -
  let ?le = "\<lambda>a b. keys (p_handles b) = keys (p_handles a)
       \<and> (m \<in> set (to_remove_methods b) \<longleftrightarrow> m \<in> set (to_remove_methods a))
       \<and> (\<forall>h. m \<in> set (handle_methods (p_handles b) h) \<longleftrightarrow> m \<in> set (handle_methods (p_handles a) h))"
  have "?le ps ps' \<and> (\<forall>x\<in>set L. True)"
  proof (rule fold_err_Inr[where le = ?le and Q = "\<lambda>_ _. True", OF assms(1)])
    fix x s s1
    assume x: "x \<in> set L" and st: "method_scan x s = Inr s1"
    obtain m' mi' where p: "x = (m', mi')" by (cases x)
    from x assms(2) have "m' \<noteq> m" by (force simp: p keys_def)
    from method_scan_other[OF st[unfolded p] this] method_scan_keys[OF st[unfolded p]]
    show "?le s s1 \<and> True" by simp
  qed auto
  then show ?thesis by simp
qed

lemma method_loop_target:
  assumes "fold_err method_scan L ps = Inr ps'"
    and "distinct (keys L)" and "map_of L m = Some mi"
    and "\<not> is_interface_getter m" and "\<not> endswith ''_Release'' m"
    and "m \<notin> set (to_remove_methods ps)"
  shows "keys (p_handles ps') = keys (p_handles ps)
       \<and> (let ms = matching_handles (p_handles ps) mi
          in if ms = []
             then m \<notin> set (to_remove_methods ps')
                  \<and> (\<forall>h. m \<in> set (handle_methods (p_handles ps') h)
                          \<longleftrightarrow> m \<in> set (handle_methods (p_handles ps) h))
             else m \<in> set (to_remove_methods ps')
                  \<and> (\<forall>h. m \<in> set (handle_methods (p_handles ps') h)
                          \<longleftrightarrow> h = hd ms \<or> m \<in> set (handle_methods (p_handles ps) h)))"
  using assms(1,2,3,6)
proof (induction L arbitrary: ps)
  case Nil
  then show ?case by simp
next
  case (Cons x L)
  obtain m' mi' where p: "x = (m', mi')" by (cases x)
  from Cons.prems(1) obtain ps1 where 1: "method_scan (m', mi') ps = Inr ps1"
    and 2: "fold_err method_scan L ps1 = Inr ps'"
    by (auto simp: p split: sum.splits)
  note k1 = method_scan_keys[OF 1]
  from Cons.prems(2) have dL: "distinct (keys L)" and nk: "m' \<notin> set (keys L)"
    by (simp_all add: keys_def p)
  show ?case
  proof (cases "m' = m")
    case True
    with Cons.prems(3) have mi: "mi' = mi" by (simp add: p)
    from nk True have "m \<notin> set (keys L)" by simp
    note ab = method_loop_absent[OF 2 this]
    note tg = method_scan_target[OF 1[unfolded True mi] assms(4,5) Cons.prems(4)]
    from ab tg k1 show ?thesis
      by (auto simp: Let_def split: if_splits)
  next
    case False
    with Cons.prems(3) have mL: "map_of L m = Some mi" by (simp add: p)
    from method_scan_other[OF 1 False] Cons.prems(4)
    have o: "m \<notin> set (to_remove_methods ps1)"
      "\<forall>h. m \<in> set (handle_methods (p_handles ps1) h) \<longleftrightarrow> m \<in> set (handle_methods (p_handles ps) h)"
      by simp_all
    note ih = Cons.IH[OF 2 dL mL o(1)]
    have mh: "matching_handles (p_handles ps1) mi = matching_handles (p_handles ps) mi"
      by (rule matching_handles_keys[OF k1])
    from ih o(2) k1 show ?thesis
      unfolding mh by (auto simp: Let_def split: if_splits)
  qed
qed


lemma pop_all_map_of:
  assumes "pop_all ms d = Inr d'"
  shows "map_of d' m = (if m \<in> set ms then None else map_of d m)"
    and "distinct (keys d) \<Longrightarrow> distinct (keys d')"
proof -
  have "map_of d' m = (if m \<in> set ms then None else map_of d m)
      \<and> (distinct (keys d) \<longrightarrow> distinct (keys d'))"
    using assms unfolding pop_all_def
  proof (induction ms arbitrary: d)
    case Nil
    then show ?case by simp
  next
    case (Cons k ms)
    from Cons.prems obtain d1 where d1: "pop d k = Inr d1" "fold_err (\<lambda>m d'. pop d' m) ms d1 = Inr d'"
      by (auto split: sum.splits)
    from d1(1) have e: "d1 = AList.delete k d"
      by (auto simp: pop_def split: option.splits)
    have "map_of d1 m = (if m = k then None else map_of d m)"
      by (simp add: e delete_conv')
    moreover have "distinct (keys d) \<longrightarrow> distinct (keys d1)"
      by (simp add: e keys_def distinct_delete)
    ultimately show ?case using Cons.IH[OF d1(2)] by auto
  qed
  then show "map_of d' m = (if m \<in> set ms then None else map_of d m)"
    and "distinct (keys d) \<Longrightarrow> distinct (keys d')" by simp_all
qed


lemma file_pass_state:
  assumes fp: "file_pass il jl c = Inr c'"
  shows "keys (files c') = keys (files c)"
    and "\<And>k. file_handle_keys c' k = file_handle_keys c k"
    and "\<And>k h. k \<noteq> il \<Longrightarrow> file_handle_methods c' k h = file_handle_methods c k h"
    and "\<And>k. k \<noteq> jl \<Longrightarrow> file_method c' k m = file_method c k m"
    and "methods_distinct c \<Longrightarrow> methods_distinct c'"
    and "file_method c jl m = None \<Longrightarrow>
           file_method c' jl m = None
           \<and> (\<forall>h. m \<in> set (file_handle_methods c' il h) \<longleftrightarrow> m \<in> set (file_handle_methods c il h))"
    and "file_method c jl m = Some mi \<Longrightarrow> methods_distinct c \<Longrightarrow>
         \<not> is_interface_getter m \<Longrightarrow> \<not> endswith ''_Release'' m \<Longrightarrow>
           (let ms = file_matching c il mi
            in if ms = []
               then file_method c' jl m = Some mi
                    \<and> (\<forall>h. m \<in> set (file_handle_methods c' il h) \<longleftrightarrow> m \<in> set (file_handle_methods c il h))
               else file_method c' jl m = None
                    \<and> (\<forall>h. m \<in> set (file_handle_methods c' il h)
                            \<longleftrightarrow> h = hd ms \<or> m \<in> set (file_handle_methods c il h)))"
proof -
  from file_pass_files[OF fp] obtain il_infos infos ps methods' where
    il: "map_of (files c) il = Some il_infos" and jl: "map_of (files c) jl = Some infos"
    and ps: "fold_err method_scan (methods infos)
             \<lparr>p_handles = file_handles il_infos, p_callbacks = callbacks infos,
              p_interfaces = interfaces (tables c), p_release_methods = release_methods (tables c),
              to_remove_methods = []\<rparr> = Inr ps"
    and pp: "pop_all (to_remove_methods ps) (methods infos) = Inr methods'"
    and f: "files c' = map (\<lambda>(k, x). if k = jl then (k, (\<lambda>x. x\<lparr>methods := methods', callbacks := p_callbacks ps\<rparr>) x)
                                  else (k, x))
                     (map (\<lambda>(k, x). if k = il then (k, (\<lambda>x. x\<lparr>file_handles := p_handles ps\<rparr>) x) else (k, x))
                        (files c))"
    by blast
  let ?ps0 = "\<lparr>p_handles = file_handles il_infos, p_callbacks = callbacks infos,
              p_interfaces = interfaces (tables c), p_release_methods = release_methods (tables c),
              to_remove_methods = []\<rparr>"
  have lk: "map_of (files c') k
     = (if k = jl then map_option (\<lambda>x. x\<lparr>methods := methods', callbacks := p_callbacks ps\<rparr>)
                         (if k = il then map_option (\<lambda>x. x\<lparr>file_handles := p_handles ps\<rparr>) (map_of (files c) k)
                          else map_of (files c) k)
        else if k = il then map_option (\<lambda>x. x\<lparr>file_handles := p_handles ps\<rparr>) (map_of (files c) k)
        else map_of (files c) k)" for k
    unfolding f map_of_map_entry by simp
  have kh: "keys (p_handles ps) = keys (file_handles il_infos)"
  proof -
    have "keys (p_handles ps) = keys (p_handles ?ps0)
       \<and> (\<forall>x\<in>set (methods infos). True)"
    proof (rule fold_err_Inr[where le = "\<lambda>a b. keys (p_handles b) = keys (p_handles a)"
            and Q = "\<lambda>_ _. True", OF ps])
      fix x s s1
      assume "method_scan x s = Inr s1"
      then show "keys (p_handles s1) = keys (p_handles s) \<and> True"
        using method_scan_keys[of "fst x" "snd x" s s1] by simp
    qed auto
    then show ?thesis by simp
  qed
  have fm: "file_method c' k m' = (if k = jl then map_of methods' m' else file_method c k m')" for k m'
    unfolding file_method_def lk using il jl by (auto split: option.splits)
  have fh: "file_handle_methods c' k h
     = (if k = il then handle_methods (p_handles ps) h else file_handle_methods c k h)" for k h
    unfolding file_handle_methods_def lk using il jl by (auto split: option.splits)
  have fk: "file_handle_keys c' k = file_handle_keys c k" for k
    unfolding file_handle_keys_def lk using il jl kh by (auto split: option.splits)
  have c_il: "file_handle_methods c il h = handle_methods (file_handles il_infos) h" for h
    by (simp add: file_handle_methods_def il)
  have c_jl: "file_method c jl m' = map_of (methods infos) m'" for m'
    by (simp add: file_method_def jl)
  note pm = pop_all_map_of[OF pp]
  show "keys (files c') = keys (files c)"
    unfolding f keys_map_entry ..
  show "\<And>k. file_handle_keys c' k = file_handle_keys c k" by (rule fk)
  show "\<And>k h. k \<noteq> il \<Longrightarrow> file_handle_methods c' k h = file_handle_methods c k h"
    by (simp add: fh)
  show "\<And>k. k \<noteq> jl \<Longrightarrow> file_method c' k m = file_method c k m"
    by (simp add: fm)
  show "methods_distinct c'" if md: "methods_distinct c"
  proof -
    from md jl have "distinct (keys (methods infos))"
      by (auto simp: methods_distinct_def dest: map_of_SomeD)
    from pm(2)[OF this] have dm: "distinct (keys methods')" .
    show ?thesis
      unfolding methods_distinct_def f using md dm
      by (fastforce simp: methods_distinct_def split: if_splits)
  qed
  show "file_method c' jl m = None
           \<and> (\<forall>h. m \<in> set (file_handle_methods c' il h) \<longleftrightarrow> m \<in> set (file_handle_methods c il h))"
    if "file_method c jl m = None"
  proof -
    from that have "m \<notin> set (keys (methods infos))"
      by (simp add: c_jl in_keys_map_of)
    from method_loop_absent[OF ps this] that show ?thesis
      by (simp add: fm fh c_il c_jl pm(1))
  qed
  show "(let ms = file_matching c il mi
            in if ms = []
               then file_method c' jl m = Some mi
                    \<and> (\<forall>h. m \<in> set (file_handle_methods c' il h) \<longleftrightarrow> m \<in> set (file_handle_methods c il h))
               else file_method c' jl m = None
                    \<and> (\<forall>h. m \<in> set (file_handle_methods c' il h)
                            \<longleftrightarrow> h = hd ms \<or> m \<in> set (file_handle_methods c il h)))"
    if mi: "file_method c jl m = Some mi" and md: "methods_distinct c"
      and ng: "\<not> is_interface_getter m" and nr: "\<not> endswith ''_Release'' m"
  proof -
    from md jl have d: "distinct (keys (methods infos))"
      by (auto simp: methods_distinct_def dest: map_of_SomeD)
    from mi have l: "map_of (methods infos) m = Some mi" by (simp add: c_jl)
    have "m \<notin> set (to_remove_methods ?ps0)" by simp
    from method_loop_target[OF ps d l ng nr this]
    have t: "(let ms = matching_handles (file_handles il_infos) mi
          in if ms = []
             then m \<notin> set (to_remove_methods ps)
                  \<and> (\<forall>h. m \<in> set (handle_methods (p_handles ps) h)
                          \<longleftrightarrow> m \<in> set (handle_methods (file_handles il_infos) h))
             else m \<in> set (to_remove_methods ps)
                  \<and> (\<forall>h. m \<in> set (handle_methods (p_handles ps) h)
                          \<longleftrightarrow> h = hd ms \<or> m \<in> set (handle_methods (file_handles il_infos) h)))"
      by (simp add: Let_def)
    have fmi: "file_matching c il mi = matching_handles (file_handles il_infos) mi"
      by (simp add: file_matching_def il)
    from t l show ?thesis
      unfolding fmi by (auto simp: Let_def fm fh c_il pm(1) split: if_splits)
  qed
qed


lemma file_matching_keys:
  "file_matching c k mi
     = filter (\<lambda>t. t \<in> set (file_handle_keys c k)) (map (\<lambda>a. decay_eos_type (arg_type a)) (args mi))"
  by (cases "map_of (files c) k") (simp_all add: file_matching_def file_handle_keys_def matching_handles_def)

lemma file_matching_same:
  "file_handle_keys c' k = file_handle_keys c k \<Longrightarrow> file_matching c' k mi = file_matching c k mi"
  by (simp add: file_matching_keys)

lemma file_pass_moves:
  assumes fp: "file_pass il jl c = Inr c'"
    and md: "methods_distinct c"
    and ng: "\<not> is_interface_getter m" and nr: "\<not> endswith ''_Release'' m"
  shows "methods_distinct c'"
    and "keys (files c') = keys (files c)"
    and "\<And>k. file_handle_keys c' k = file_handle_keys c k"
    and "\<And>i h. owned_in c i h m \<Longrightarrow> owned_in c' i h m"
    and "pending c jf m mi \<Longrightarrow> jl \<noteq> jf \<or> file_matching c il mi = [] \<Longrightarrow> pending c' jf m mi"
    and "pending c jf m mi \<Longrightarrow> jl = jf \<Longrightarrow> file_matching c il mi \<noteq> [] \<Longrightarrow>
           owned_in c' il (hd (file_matching c il mi)) m"
proof -
  note st = file_pass_state[OF fp]
  show "methods_distinct c'" by (rule st(5)[OF md])
  show "keys (files c') = keys (files c)" by (rule st(1))
  show "\<And>k. file_handle_keys c' k = file_handle_keys c k" by (rule st(2))
  show "owned_in c' i h m" if o: "owned_in c i h m" for i h
  proof -
    from o have n: "file_method c k m = None" for k by (simp add: owned_in_def)
    from st(6)[OF n[of jl]] have a: "file_method c' jl m = None"
      and b: "\<And>h. m \<in> set (file_handle_methods c' il h) \<longleftrightarrow> m \<in> set (file_handle_methods c il h)"
      by simp_all
    have "file_method c' k m = None" for k
      using a st(4)[of k m] n by (cases "k = jl") simp_all
    moreover have "m \<in> set (file_handle_methods c' k h') \<longleftrightarrow> k = i \<and> h' = h" for k h'
      using b st(3)[of k h'] o by (cases "k = il") (simp_all add: owned_in_def)
    ultimately show ?thesis by (simp add: owned_in_def)
  qed
  show "pending c' jf m mi" if p: "pending c jf m mi" and c: "jl \<noteq> jf \<or> file_matching c il mi = []"
  proof -
    from p have pj: "file_method c jf m = Some mi"
      and po: "\<And>k. k \<noteq> jf \<Longrightarrow> file_method c k m = None"
      and ph: "\<And>k h. m \<notin> set (file_handle_methods c k h)"
      by (simp_all add: pending_def)
    have "file_method c' jl m = file_method c jl m
        \<and> (\<forall>h. m \<in> set (file_handle_methods c' il h) \<longleftrightarrow> m \<in> set (file_handle_methods c il h))"
    proof (cases "jl = jf")
      case True
      with c have "file_matching c il mi = []" by simp
      with st(7)[OF pj[folded True] md ng nr] pj True show ?thesis
        by (simp add: Let_def)
    next
      case False
      from st(6)[OF po[OF False]] po[OF False] show ?thesis by simp
    qed
    then have a: "file_method c' jl m = file_method c jl m"
      and b: "\<And>h. m \<in> set (file_handle_methods c' il h) \<longleftrightarrow> m \<in> set (file_handle_methods c il h)"
      by simp_all
    have fm: "file_method c' k m = file_method c k m" for k
      using a st(4)[of k m] by (cases "k = jl") simp_all
    have fh: "m \<notin> set (file_handle_methods c' k h)" for k h
      using b st(3)[of k h] ph by (cases "k = il") simp_all
    from fm fh pj po show ?thesis by (simp add: pending_def)
  qed
  show "owned_in c' il (hd (file_matching c il mi)) m"
    if p: "pending c jf m mi" and j: "jl = jf" and ne: "file_matching c il mi \<noteq> []"
  proof -
    from p have pj: "file_method c jf m = Some mi"
      and po: "\<And>k. k \<noteq> jf \<Longrightarrow> file_method c k m = None"
      and ph: "\<And>k h. m \<notin> set (file_handle_methods c k h)"
      by (simp_all add: pending_def)
    from st(7)[OF pj[folded j] md ng nr] ne
    have a: "file_method c' jl m = None"
      and b: "\<And>h. m \<in> set (file_handle_methods c' il h) \<longleftrightarrow> h = hd (file_matching c il mi)"
      using ph by (simp_all add: Let_def)
    have "file_method c' k m = None" for k
      using a st(4)[of k m] po j by (cases "k = jl") simp_all
    moreover have "m \<in> set (file_handle_methods c' k h') \<longleftrightarrow> k = il \<and> h' = hd (file_matching c il mi)" for k h'
      using b st(3)[of k h'] ph by (cases "k = il") simp_all
    ultimately show ?thesis by (simp add: owned_in_def)
  qed
qed


lemma inner_loop_moves:
  assumes "fold_err (file_pass il) ks c = Inr c'"
    and "methods_distinct c"
    and ng: "\<not> is_interface_getter m" and nr: "\<not> endswith ''_Release'' m"
  shows "methods_distinct c' \<and> keys (files c') = keys (files c)
       \<and> (\<forall>k. file_handle_keys c' k = file_handle_keys c k)
       \<and> (\<forall>i h. owned_in c i h m \<longrightarrow> owned_in c' i h m)
       \<and> (pending c jf m mi \<longrightarrow>
            (if file_matching c il mi \<noteq> [] \<and> jf \<in> set ks
             then owned_in c' il (hd (file_matching c il mi)) m
             else pending c' jf m mi))"
  using assms(1,2)
proof (induction ks arbitrary: c)
  case Nil
  then show ?case by simp
next
  case (Cons jl ks)
  from Cons.prems(1) obtain c1 where 1: "file_pass il jl c = Inr c1"
    and 2: "fold_err (file_pass il) ks c1 = Inr c'"
    by (auto split: sum.splits)
  note mv = file_pass_moves[OF 1 Cons.prems(2) ng nr]
  note ih = Cons.IH[OF 2 mv(1)]
  have fm: "file_matching c1 il mi = file_matching c il mi"
    by (rule file_matching_same[OF mv(3)])
  have "pending c jf m mi \<longrightarrow>
            (if file_matching c il mi \<noteq> [] \<and> jf \<in> set (jl # ks)
             then owned_in c' il (hd (file_matching c il mi)) m
             else pending c' jf m mi)"
  proof
    assume p: "pending c jf m mi"
    show "if file_matching c il mi \<noteq> [] \<and> jf \<in> set (jl # ks)
             then owned_in c' il (hd (file_matching c il mi)) m
             else pending c' jf m mi"
    proof (cases "jl = jf \<and> file_matching c il mi \<noteq> []")
      case True
      with mv(6)[OF p] have "owned_in c1 il (hd (file_matching c il mi)) m" by simp
      with ih have "owned_in c' il (hd (file_matching c il mi)) m" by blast
      with True show ?thesis by simp
    next
      case False
      then have "jl \<noteq> jf \<or> file_matching c il mi = []" by blast
      from mv(5)[OF p this] have "pending c1 jf m mi" .
      with ih[unfolded fm] have "if file_matching c il mi \<noteq> [] \<and> jf \<in> set ks
             then owned_in c' il (hd (file_matching c il mi)) m
             else pending c' jf m mi"
        by blast
      with False show ?thesis by auto
    qed
  qed
  moreover from ih mv have "methods_distinct c' \<and> keys (files c') = keys (files c)
       \<and> (\<forall>k. file_handle_keys c' k = file_handle_keys c k)
       \<and> (\<forall>i h. owned_in c i h m \<longrightarrow> owned_in c' i h m)"
    by simp
  ultimately show ?case by blast
qed

lemma outer_loop_moves:
  assumes "fold_err (\<lambda>il c1. fold_err (file_pass il) (keys (files c1)) c1) ils c = Inr c'"
    and "methods_distinct c"
    and ng: "\<not> is_interface_getter m" and nr: "\<not> endswith ''_Release'' m"
    and "jf \<in> set (keys (files c))"
  shows "keys (files c') = keys (files c)
       \<and> (\<forall>k. file_handle_keys c' k = file_handle_keys c k)
       \<and> (\<forall>i h. owned_in c i h m \<longrightarrow> owned_in c' i h m)
       \<and> (pending c jf m mi \<longrightarrow>
            (case find (\<lambda>il. file_matching c il mi \<noteq> []) ils of
               None \<Rightarrow> pending c' jf m mi
             | Some il \<Rightarrow> owned_in c' il (hd (file_matching c il mi)) m))"
  using assms(1,2,5)
proof (induction ils arbitrary: c)
  case Nil
  then show ?case by simp
next
  case (Cons il ils)
  from Cons.prems(1) obtain c1 where 1: "fold_err (file_pass il) (keys (files c)) c = Inr c1"
    and 2: "fold_err (\<lambda>il c1. fold_err (file_pass il) (keys (files c1)) c1) ils c1 = Inr c'"
    by (auto split: sum.splits)
  from inner_loop_moves[OF 1 Cons.prems(2) ng nr, of jf mi] Cons.prems(3)
  have md1: "methods_distinct c1" and k1: "keys (files c1) = keys (files c)"
    and h1: "\<And>k. file_handle_keys c1 k = file_handle_keys c k"
    and o1: "\<And>i h. owned_in c i h m \<Longrightarrow> owned_in c1 i h m"
    and p1: "pending c jf m mi \<Longrightarrow>
            (if file_matching c il mi \<noteq> []
             then owned_in c1 il (hd (file_matching c il mi)) m
             else pending c1 jf m mi)"
    by simp_all
  from Cons.prems(3) k1 have j1: "jf \<in> set (keys (files c1))" by simp
  note ih = Cons.IH[OF 2 md1 j1]
  have fm: "file_matching c1 k mi = file_matching c k mi" for k
    by (rule file_matching_same[OF h1])
  have "pending c jf m mi \<longrightarrow>
            (case find (\<lambda>il. file_matching c il mi \<noteq> []) (il # ils) of
               None \<Rightarrow> pending c' jf m mi
             | Some il \<Rightarrow> owned_in c' il (hd (file_matching c il mi)) m)"
  proof
    assume p: "pending c jf m mi"
    show "case find (\<lambda>il. file_matching c il mi \<noteq> []) (il # ils) of
               None \<Rightarrow> pending c' jf m mi
             | Some il \<Rightarrow> owned_in c' il (hd (file_matching c il mi)) m"
    proof (cases "file_matching c il mi \<noteq> []")
      case True
      with p1[OF p] have "owned_in c1 il (hd (file_matching c il mi)) m" by simp
      with ih have "owned_in c' il (hd (file_matching c il mi)) m" by blast
      with True show ?thesis by simp
    next
      case False
      with p1[OF p] have "pending c1 jf m mi" by simp
      with ih[unfolded fm] have "case find (\<lambda>il. file_matching c il mi \<noteq> []) ils of
               None \<Rightarrow> pending c' jf m mi
             | Some il \<Rightarrow> owned_in c' il (hd (file_matching c il mi)) m"
        by blast
      with False show ?thesis by simp
    qed
  qed
  moreover from ih k1 h1 o1 have "keys (files c') = keys (files c)
       \<and> (\<forall>k. file_handle_keys c' k = file_handle_keys c k)
       \<and> (\<forall>i h. owned_in c i h m \<longrightarrow> owned_in c' i h m)"
    by simp
  ultimately show ?case by blast
qed


lemma map_of_update_all:
  "distinct (keys src) \<Longrightarrow>
   map_of (update_all src dst) h = (case map_of src h of Some v \<Rightarrow> Some v | None \<Rightarrow> map_of dst h)"
  unfolding update_all_def
proof (induction src arbitrary: dst)
  case Nil
  then show ?case by simp
next
  case (Cons p src)
  obtain k v where p: "p = (k, v)" by (cases p)
  from Cons.prems have d: "distinct (keys src)" and nk: "k \<notin> set (keys src)"
    by (simp_all add: keys_def p)
  from nk have n: "map_of src k = None"
    by (simp add: in_keys_map_of)
  show ?case
    unfolding p fold_simps prod.case Cons.IH[OF d]
    using n by (auto simp: update_conv' split: option.splits)
qed

lemma handle_methods_update_all:
  assumes "distinct (keys src)"
  shows "handle_methods (update_all src dst) h
     = (if h \<in> set (keys src) then handle_methods src h else handle_methods dst h)"
  unfolding handle_methods_def map_of_update_all[OF assms]
  by (auto simp: in_keys_map_of split: option.splits)

lemma merge_handles:
  assumes "distinct (concat (map (\<lambda>(k, x). keys (file_handles x)) fs))"
  shows "m \<in> set (handle_methods (fold (\<lambda>(il, infos) hs. update_all (file_handles infos) hs) fs hs0) h)
     \<longleftrightarrow> (\<exists>(k, x)\<in>set fs. m \<in> set (handle_methods (file_handles x) h))
          \<or> ((\<forall>(k, x)\<in>set fs. h \<notin> set (keys (file_handles x))) \<and> m \<in> set (handle_methods hs0 h))"
  using assms
proof (induction fs rule: rev_induct)
  case Nil
  then show ?case by simp
next
  case (snoc p fs)
  obtain k x where p: "p = (k, x)" by (cases p)
  from snoc.prems have d: "distinct (concat (map (\<lambda>(k, x). keys (file_handles x)) fs))"
    and dx: "distinct (keys (file_handles x))"
    and dj: "\<And>k' x'. (k', x') \<in> set fs \<Longrightarrow> set (keys (file_handles x')) \<inter> set (keys (file_handles x)) = {}"
    by (auto simp: p)
  note ih = snoc.IH[OF d]
  let ?F = "fold (\<lambda>(il, infos) hs. update_all (file_handles infos) hs) fs hs0"
  have e: "handle_methods (fold (\<lambda>(il, infos) hs. update_all (file_handles infos) hs) (fs @ [p]) hs0) h
     = (if h \<in> set (keys (file_handles x)) then handle_methods (file_handles x) h
        else handle_methods ?F h)"
    by (simp add: p handle_methods_update_all[OF dx])
  show ?case
  proof (cases "h \<in> set (keys (file_handles x))")
    case True
    have "handle_methods (file_handles x') h = []" if "(k', x') \<in> set fs" for k' x'
    proof -
      from dj[OF that] True have "h \<notin> set (keys (file_handles x'))" by blast
      then show ?thesis by (simp add: handle_methods_def in_keys_map_of)
    qed
    with True show ?thesis
      unfolding e by (auto simp: p)
  next
    case False
    then have "handle_methods (file_handles x) h = []"
      by (simp add: handle_methods_def in_keys_map_of)
    with False ih show ?thesis
      unfolding e by (auto simp: p)
  qed
qed

lemma handle_lists_of_keys:
  "distinct (keys fs) \<Longrightarrow>
   map (\<lambda>(k, x). keys (file_handles x)) fs
     = map (\<lambda>k. case map_of fs k of None \<Rightarrow> [] | Some x \<Rightarrow> keys (file_handles x)) (keys fs)"
proof (induction fs)
  case Nil
  then show ?case by (simp add: keys_def)
next
  case (Cons p fs)
  obtain k x where p: "p = (k, x)" by (cases p)
  from Cons.prems have d: "distinct (keys fs)" and nk: "k \<notin> set (keys fs)"
    by (simp_all add: keys_def p)
  have "map (\<lambda>k'. case map_of (p # fs) k' of None \<Rightarrow> [] | Some x \<Rightarrow> keys (file_handles x)) (keys fs)
      = map (\<lambda>k'. case map_of fs k' of None \<Rightarrow> [] | Some x \<Rightarrow> keys (file_handles x)) (keys fs)"
    using nk by (intro map_cong) (auto simp: p)
  with Cons.IH[OF d] show ?case
    by (simp add: p keys_def)
qed

lemma all_handle_names_same:
  assumes "distinct (keys (files c))" and "keys (files c') = keys (files c)"
    and "\<And>k. file_handle_keys c' k = file_handle_keys c k"
  shows "all_handle_names c' = all_handle_names c"
proof -
  from assms(1,2) have d': "distinct (keys (files c'))" by simp
  have "map (\<lambda>(k, x). keys (file_handles x)) (files c') = map (file_handle_keys c') (keys (files c'))"
    unfolding handle_lists_of_keys[OF d'] file_handle_keys_def ..
  moreover have "map (\<lambda>(k, x). keys (file_handles x)) (files c) = map (file_handle_keys c) (keys (files c))"
    unfolding handle_lists_of_keys[OF assms(1)] file_handle_keys_def ..
  moreover have "file_handle_keys c' = file_handle_keys c"
    using assms(3) by (intro ext)
  ultimately show ?thesis
    by (simp add: all_handle_names_def assms(2))
qed

lemma move_methods_tables:
  assumes "move_methods c = Inr c'"
  shows "handles (tables c') = handles (tables c)
       \<and> unhandled_methods (tables c') = unhandled_methods (tables c)"
proof -
  let ?le = "\<lambda>a b. handles (tables b) = handles (tables a)
       \<and> unhandled_methods (tables b) = unhandled_methods (tables a)"
  have inner: "?le a b" if "fold_err (file_pass il) ks a = Inr b" for il ks a b
  proof -
    have "?le a b \<and> (\<forall>x\<in>set ks. True)"
    proof (rule fold_err_Inr[where le = ?le and Q = "\<lambda>_ _. True", OF that])
      fix x s s1
      assume "file_pass il x s = Inr s1"
      from file_pass_files[OF this] show "?le s s1 \<and> True" by auto
    qed auto
    then show ?thesis by simp
  qed
  have "?le c c' \<and> (\<forall>x\<in>set (keys (files c)). True)"
  proof (rule fold_err_Inr[where le = ?le and Q = "\<lambda>_ _. True", OF assms[unfolded move_methods_def]])
    fix x s s1
    assume "fold_err (file_pass x) (keys (files s)) s = Inr s1"
    from inner[OF this] show "?le s s1 \<and> True" by simp
  qed auto
  then show ?thesis by simp
qed

lemma move_enums_handle_methods:
  assumes "fold_err move_enums_step fs g = Inr g'"
  shows "handle_methods (handles g') h = handle_methods (handles g) h"
proof -
  let ?le = "\<lambda>a b. handle_methods (handles b) h = handle_methods (handles a) h"
  have "?le g g' \<and> (\<forall>x\<in>set fs. True)"
  proof (rule fold_err_Inr[where le = ?le and Q = "\<lambda>_ _. True", OF assms])
    fix x s s1
    assume "move_enums_step x s = Inr s1"
    then show "?le s s1 \<and> True"
      by (cases x)
         (auto simp: move_enums_step_def Let_def handle_methods_def getitem_def update_conv'
               split: if_splits sum.splits option.splits)
  qed auto
  then show ?thesis by simp
qed

lemma file_leftovers_handles: "handles (fold file_leftovers fs g) = handles g"
proof (induction fs arbitrary: g)
  case Nil
  then show ?case by simp
next
  case (Cons p fs)
  have "handles (file_leftovers p g) = handles g"
    by (cases p) (simp add: file_leftovers_def)
  with Cons.IH[of "file_leftovers p g"] show ?case by simp
qed


lemma declared_once_pending:
  assumes "declared_once c jf m mi"
  shows "pending c jf m mi"
proof -
  from assms have 1: "file_method c jf m = Some mi"
    and 2: "\<And>k x. (k, x) \<in> set (files c) \<Longrightarrow> k \<noteq> jf \<Longrightarrow> m \<notin> set (keys (methods x))"
    and 3: "\<And>k x h hi. (k, x) \<in> set (files c) \<Longrightarrow> (h, hi) \<in> set (file_handles x)
              \<Longrightarrow> m \<notin> set (keys (methods hi))"
    by (auto simp: declared_once_def)
  have "file_method c k m = None" if "k \<noteq> jf" for k
  proof (cases "map_of (files c) k")
    case None
    then show ?thesis by (simp add: file_method_def)
  next
    case (Some x)
    from 2[OF map_of_SomeD[OF Some] that] Some show ?thesis
      by (simp add: file_method_def in_keys_map_of)
  qed
  moreover have "m \<notin> set (file_handle_methods c k h)" for k h
  proof (cases "map_of (files c) k")
    case None
    then show ?thesis by (simp add: file_handle_methods_def)
  next
    case (Some x)
    show ?thesis
    proof (cases "map_of (file_handles x) h")
      case None
      with Some show ?thesis by (simp add: file_handle_methods_def handle_methods_def)
    next
      case hi: (Some hi)
      from 3[OF map_of_SomeD[OF Some] map_of_SomeD[OF hi]] Some hi show ?thesis
        by (simp add: file_handle_methods_def handle_methods_def)
    qed
  qed
  ultimately show ?thesis using 1 by (simp add: pending_def)
qed

lemma consolidate_owner:
  assumes d: "distinct (keys (files c))"
    and md: "methods_distinct c"
    and dh: "distinct (all_handle_names c)"
    and p: "pending c jf m mi"
    and gh: "\<And>h. m \<notin> set (handle_methods (handles (tables c)) h)"
    and u: "m \<notin> set (keys (unhandled_methods (tables c)))"
    and ng: "\<not> is_interface_getter m" and nr: "\<not> endswith ''_Release'' m"
    and f: "find (\<lambda>il. file_matching c il mi \<noteq> []) (keys (files c)) = Some il"
    and r: "consolidate c = Inr res"
  shows "(\<forall>h. m \<in> set (handle_methods (handles res) h) \<longleftrightarrow> h = hd (file_matching c il mi))
       \<and> m \<notin> set (keys (unhandled_methods res))"
proof -
  let ?h = "hd (file_matching c il mi)"
  from r obtain c1 g1 where c1: "move_methods c = Inr c1"
    and g1: "fold_err move_enums_step (files (move_structs (move_handles c1)))
               (tables (move_structs (move_handles c1))) = Inr g1"
    and res: "make_additional_method_requirements
               (fold file_leftovers (files (move_structs (move_handles c1))) g1) = Inr res"
    by (auto simp: consolidate_def Let_def split: sum.splits)
  have jf: "jf \<in> set (keys (files c))"
  proof (cases "map_of (files c) jf")
    case None
    with p show ?thesis by (simp add: pending_def file_method_def)
  next
    case (Some x)
    then show ?thesis by (simp add: in_keys_map_of)
  qed
  from outer_loop_moves[OF c1[unfolded move_methods_def] md ng nr jf, of mi] p f
  have k1: "keys (files c1) = keys (files c)"
    and h1: "\<And>k. file_handle_keys c1 k = file_handle_keys c k"
    and o: "owned_in c1 il ?h m"
    by simp_all
  from d k1 have d1: "distinct (map fst (files c1))" by (simp add: keys_def)
  from o have n1: "\<And>k. file_method c1 k m = None"
    and w1: "\<And>k h'. m \<in> set (file_handle_methods c1 k h') \<longleftrightarrow> k = il \<and> h' = ?h"
    by (simp_all add: owned_in_def)
  have dh1: "distinct (concat (map (\<lambda>(k, x). keys (file_handles x)) (files c1)))"
    using all_handle_names_same[OF d k1 h1] dh by (simp add: all_handle_names_def)
  have fs: "(\<exists>(k, x)\<in>set (files c1). m \<in> set (handle_methods (file_handles x) h)) \<longleftrightarrow> h = ?h" for h
  proof
    assume "\<exists>(k, x)\<in>set (files c1). m \<in> set (handle_methods (file_handles x) h)"
    then obtain k x where kx: "(k, x) \<in> set (files c1)" "m \<in> set (handle_methods (file_handles x) h)"
      by blast
    from kx(1) d1 have "map_of (files c1) k = Some x" by simp
    with kx(2) have "m \<in> set (file_handle_methods c1 k h)"
      by (simp add: file_handle_methods_def)
    with w1 show "h = ?h" by simp
  next
    assume "h = ?h"
    with w1[of il ?h] have m: "m \<in> set (file_handle_methods c1 il h)" by simp
    then obtain x where x: "map_of (files c1) il = Some x"
      by (cases "map_of (files c1) il") (simp_all add: file_handle_methods_def)
    with m have "m \<in> set (handle_methods (file_handles x) h)"
      by (simp add: file_handle_methods_def)
    with map_of_SomeD[OF x] show "\<exists>(k, x)\<in>set (files c1). m \<in> set (handle_methods (file_handles x) h)"
      by blast
  qed
  note t1 = move_methods_tables[OF c1]
  have mh: "m \<in> set (handle_methods (handles (tables (move_handles c1))) h) \<longleftrightarrow> h = ?h" for h
    using merge_handles[OF dh1, of m "handles (tables c1)" h] fs[of h] gh[of h] t1
    by (simp add: move_handles_def)
  have f2: "files (move_structs (move_handles c1)) = files c1"
    by (simp add: move_structs_def move_handles_def)
  have t2: "handles (tables (move_structs (move_handles c1))) = handles (tables (move_handles c1))"
    "unhandled_methods (tables (move_structs (move_handles c1))) = unhandled_methods (tables c1)"
    by (simp_all add: move_structs_def move_handles_def)
  from move_enums_handle_methods[OF g1] t2(1)
  have e1: "handle_methods (handles g1) h = handle_methods (handles (tables (move_handles c1))) h" for h
    by simp
  from move_enums_preserves[OF g1] t2(2) t1
  have u1: "unhandled_methods g1 = unhandled_methods (tables c)" by simp
  let ?g2 = "fold file_leftovers (files c1) g1"
  have h2: "handles ?g2 = handles g1" by (rule file_leftovers_handles)
  have clean: "m \<notin> set (keys (methods x))" if "(k, x) \<in> set (files c1)" for k x
  proof -
    from that d1 have "map_of (files c1) k = Some x" by simp
    with n1[of k] show ?thesis by (simp add: file_method_def in_keys_map_of)
  qed
  from file_leftovers_fold[of "files c1" g1]
  have "set (keys (unhandled_methods ?g2))
       = set (keys (unhandled_methods g1)) \<union> (\<Union>(k, x)\<in>set (files c1). set (keys (methods x)))"
    by simp
  with clean u1 u have u2: "m \<notin> set (keys (unhandled_methods ?g2))" by auto
  from make_requirements_preserves[OF res[unfolded f2]]
  have "handles res = handles ?g2" "unhandled_methods res = unhandled_methods ?g2" by simp_all
  with u2 h2 e1 mh show ?thesis by simp
qed

lemma two_file_result:
  "consolidate two_file_input
     = Inr (initial_globals\<lparr>handles :=
         [(''EOS_HA'', \<lparr>methods =
              [(''EOS_A_Do'', \<lparr>return = ''void'', args = [
                  \<lparr>arg_type = ''EOS_HA'', arg_name = ''Handle''\<rparr>]\<rparr>),
               (''EOS_B_Do'', \<lparr>return = ''void'', args = [
                  \<lparr>arg_type = ''EOS_HB'', arg_name = ''Handle''\<rparr>,
                  \<lparr>arg_type = ''EOS_HA'', arg_name = ''Other''\<rparr>]\<rparr>)],
             callbacks = [], enums = []\<rparr>),
          (''EOS_HB'', \<lparr>methods = [], callbacks = [], enums = []\<rparr>)]\<rparr>)"
  by code_simp

text \<open>
  A \<open>_Release\<close> method whose argument names a handle is put twice on the list of the
  names to remove (once when it is moved to the handle, once as a release method), and the
  second \<open>pop\<close> of the name raises.
\<close>

lemma release_with_handle_raises: "consolidate release_input = Inl KeyError"
  by code_simp

text \<open>
  C9 (as amended). Let the method \<open>m\<close> be declared in exactly one file, be neither an
  interface accessor nor a \<open>_Release\<close> method, and be in no handle and not among the
  unhandled methods before the move; let every handle name be declared in one file only,
  and let \<open>il\<close> be the first file, in the order of the file table, that declares a handle
  named by the decayed type of an argument of \<open>m\<close>. Whenever consolidation completes, \<open>m\<close>
  is in the method table of exactly one handle, the handle named by its first argument
  that names a handle of the file \<open>il\<close>, and it is not among the unhandled methods: it has
  left the method table of its file. The first match is taken over the files first and
  over the arguments second.
\<close>

theorem method_owner:
  assumes "distinct (keys (files c))"
    and "methods_distinct c"
    and "distinct (all_handle_names c)"
    and "declared_once c jf m mi"
    and "\<forall>(h, hi) \<in> set (handles (tables c)). m \<notin> set (keys (methods hi))"
    and "m \<notin> set (keys (unhandled_methods (tables c)))"
    and "\<not> is_interface_getter m" and "\<not> endswith ''_Release'' m"
    and "find (\<lambda>il. file_matching c il mi \<noteq> []) (keys (files c)) = Some il"
    and "consolidate c = Inr res"
  shows "(\<forall>h. m \<in> set (handle_methods (handles res) h) \<longleftrightarrow> h = hd (file_matching c il mi))
       \<and> m \<notin> set (keys (unhandled_methods res))"
proof -
  have gh: "m \<notin> set (handle_methods (handles (tables c)) h)" for h
  proof (cases "map_of (handles (tables c)) h")
    case None
    then show ?thesis by (simp add: handle_methods_def)
  next
    case (Some hi)
    from map_of_SomeD[OF Some] assms(5) Some show ?thesis
      by (auto simp: handle_methods_def)
  qed
  from consolidate_owner[OF assms(1-3) declared_once_pending[OF assms(4)] gh assms(6-10)]
  show ?thesis .
qed

theorem method_owner_witness:
  "\<exists>res. consolidate two_file_input = Inr res
     \<and> (\<forall>h. ''EOS_B_Do'' \<in> set (handle_methods (handles res) h) \<longleftrightarrow> h = ''EOS_HA'')
     \<and> ''EOS_B_Do'' \<notin> set (keys (unhandled_methods res))"
proof -
  let ?mi = "\<lparr>return = ''void'', args = [
                  \<lparr>arg_type = ''EOS_HB'', arg_name = ''Handle''\<rparr>,
                  \<lparr>arg_type = ''EOS_HA'', arg_name = ''Other''\<rparr>]\<rparr>"
  have 1: "distinct (keys (files two_file_input))" by code_simp
  have 2: "methods_distinct two_file_input" by code_simp
  have 3: "distinct (all_handle_names two_file_input)" by code_simp
  have 4: "declared_once two_file_input ''b'' ''EOS_B_Do'' ?mi" by code_simp
  have 5: "\<forall>(h, hi) \<in> set (handles (tables two_file_input)). ''EOS_B_Do'' \<notin> set (keys (methods hi))"
    by code_simp
  have 6: "''EOS_B_Do'' \<notin> set (keys (unhandled_methods (tables two_file_input)))" by code_simp
  have 7: "\<not> is_interface_getter ''EOS_B_Do''" by code_simp
  have 8: "\<not> endswith ''_Release'' ''EOS_B_Do''" by code_simp
  have 9: "find (\<lambda>il. file_matching two_file_input il ?mi \<noteq> []) (keys (files two_file_input))
             = Some ''a''" by code_simp
  have 10: "hd (file_matching two_file_input ''a'' ?mi) = ''EOS_HA''" by code_simp
  from method_owner[OF 1 2 3 4 5 6 7 8 9 two_file_result] two_file_result
  show ?thesis unfolding 10 by blast
qed

text \<open>
  On the two-file input the first argument of \<open>EOS_B_Do\<close> that names a declared handle is
  its \<open>EOS_HB\<close>, yet after consolidation the method is in the table of \<open>EOS_HA\<close>, the handle
  of the file that comes first, and the table of \<open>EOS_HB\<close> is empty.
\<close>

theorem first_argument_counterexample:
  "\<exists>res. consolidate two_file_input = Inr res
     \<and> file_method two_file_input ''b'' ''EOS_B_Do''
         = Some \<lparr>return = ''void'', args = [
                  \<lparr>arg_type = ''EOS_HB'', arg_name = ''Handle''\<rparr>,
                  \<lparr>arg_type = ''EOS_HA'', arg_name = ''Other''\<rparr>]\<rparr>
     \<and> all_handle_names two_file_input = [''EOS_HA'', ''EOS_HB'']
     \<and> handle_methods (handles res) ''EOS_HB'' = []
     \<and> handle_methods (handles res) ''EOS_HA'' = [''EOS_A_Do'', ''EOS_B_Do'']"
proof -
  have "file_method two_file_input ''b'' ''EOS_B_Do''
         = Some \<lparr>return = ''void'', args = [
                  \<lparr>arg_type = ''EOS_HB'', arg_name = ''Handle''\<rparr>,
                  \<lparr>arg_type = ''EOS_HA'', arg_name = ''Other''\<rparr>]\<rparr>" by code_simp
  moreover have "all_handle_names two_file_input = [''EOS_HA'', ''EOS_HB'']" by code_simp
  ultimately show ?thesis
    using two_file_result
    by (simp add: handle_methods_def keys_def)
qed


end
